theory Spec2Isabelle
  imports Main
begin

section \<open>ECMAScript time values\<close>

text \<open>
  A JavaScript \<open>Date\<close> holds a time value: milliseconds since the epoch, as an integer,
  or \<open>NaN\<close> for an Invalid Date, which is \<open>None\<close> here. The day and calendar arithmetic
  below follows the definitions of the ECMAScript specification (Day, TimeWithinDay,
  DayFromYear, YearFromTime, MonthFromTime, DateFromTime, MakeTime, MakeDay, MakeDate,
  LocalTime, UTC, TimeClip). The local time zone is a parameter, as the specification
  has it: \<open>LocalTZA t isUTC\<close> is the offset of local time from UTC, in milliseconds, at
  the time value \<open>t\<close>, which is a UTC time value when \<open>isUTC\<close> holds and a local time
  value otherwise. The offset may change with \<open>t\<close> (daylight saving).
\<close>

type_synonym zone = "int \<Rightarrow> bool \<Rightarrow> int"

definition msPerDay :: int where
  "msPerDay = 86400000"

definition Day :: "int \<Rightarrow> int" where
  "Day t = t div msPerDay"

definition TimeWithinDay :: "int \<Rightarrow> int" where
  "TimeWithinDay t = t mod msPerDay"

definition DayFromYear :: "int \<Rightarrow> int" where
  "DayFromYear y =
     365 * (y - 1970) + (y - 1969) div 4 - (y - 1901) div 100 + (y - 1601) div 400"

definition InLeapYear :: "int \<Rightarrow> bool" where
  "InLeapYear y = (y mod 4 = 0 \<and> (y mod 100 \<noteq> 0 \<or> y mod 400 = 0))"

text \<open>The largest year whose first day is not after day \<open>d\<close>: an estimate from the mean
  length of a year, adjusted by one in either direction.\<close>

definition YearFromDay :: "int \<Rightarrow> int" where
  "YearFromDay d =
     (let y0 = 1970 + (400 * d) div 146097
      in if DayFromYear (y0 + 1) \<le> d then y0 + 1
         else if DayFromYear y0 \<le> d then y0
         else y0 - 1)"

definition YearFromTime :: "int \<Rightarrow> int" where
  "YearFromTime t = YearFromDay (Day t)"

definition DayWithinYear :: "int \<Rightarrow> int" where
  "DayWithinYear t = Day t - DayFromYear (YearFromTime t)"

text \<open>The day within the year on which month \<open>m\<close> (0 is January) begins.\<close>

definition MonthStart :: "int \<Rightarrow> bool \<Rightarrow> int" where
  "MonthStart m leap =
     (let l = (if leap then 1 else 0)
      in if m = 0 then 0 else if m = 1 then 31 else if m = 2 then 59 + l
         else if m = 3 then 90 + l else if m = 4 then 120 + l else if m = 5 then 151 + l
         else if m = 6 then 181 + l else if m = 7 then 212 + l else if m = 8 then 243 + l
         else if m = 9 then 273 + l else if m = 10 then 304 + l else 334 + l)"

definition MonthFromTime :: "int \<Rightarrow> int" where
  "MonthFromTime t =
     (let d = DayWithinYear t; l = (if InLeapYear (YearFromTime t) then 1 else 0)
      in if d < 31 then 0 else if d < 59 + l then 1 else if d < 90 + l then 2
         else if d < 120 + l then 3 else if d < 151 + l then 4 else if d < 181 + l then 5
         else if d < 212 + l then 6 else if d < 243 + l then 7 else if d < 273 + l then 8
         else if d < 304 + l then 9 else if d < 334 + l then 10 else 11)"

definition DateFromTime :: "int \<Rightarrow> int" where
  "DateFromTime t =
     DayWithinYear t - MonthStart (MonthFromTime t) (InLeapYear (YearFromTime t)) + 1"

definition MakeTime :: "int \<Rightarrow> int \<Rightarrow> int \<Rightarrow> int \<Rightarrow> int" where
  "MakeTime h m s ms = h * 3600000 + m * 60000 + s * 1000 + ms"

definition MakeDay :: "int \<Rightarrow> int \<Rightarrow> int \<Rightarrow> int" where
  "MakeDay year month date =
     (let ym = year + month div 12; mn = month mod 12
      in DayFromYear ym + MonthStart mn (InLeapYear ym) + date - 1)"

definition MakeDate :: "int \<Rightarrow> int \<Rightarrow> int" where
  "MakeDate day time = day * msPerDay + time"

definition LocalTime :: "zone \<Rightarrow> int \<Rightarrow> int" where
  "LocalTime z t = t + z t True"

definition UTC :: "zone \<Rightarrow> int \<Rightarrow> int" where
  "UTC z t = t - z t False"

definition TimeClip :: "int \<Rightarrow> int option" where
  "TimeClip t = (if 8640000000000000 < abs t then None else Some t)"

text \<open>A zone whose offset never changes.\<close>

definition fixed_zone :: "int \<Rightarrow> zone" where
  "fixed_zone c t isUTC = c"

text \<open>\<open>getDate\<close>, \<open>setDate\<close> and \<open>setHours\<close> on a Date that holds the time value \<open>t\<close>;
  the two setters give the new time value of the Date.\<close>

definition getDate :: "zone \<Rightarrow> int \<Rightarrow> int" where
  "getDate z t = DateFromTime (LocalTime z t)"

definition setDate :: "zone \<Rightarrow> int \<Rightarrow> int \<Rightarrow> int option" where
  "setDate z t dt =
     (let lt = LocalTime z t;
          newDate = MakeDate (MakeDay (YearFromTime lt) (MonthFromTime lt) dt) (TimeWithinDay lt)
      in TimeClip (UTC z newDate))"

definition setHours :: "zone \<Rightarrow> int \<Rightarrow> int \<Rightarrow> int \<Rightarrow> int \<Rightarrow> int \<Rightarrow> int option" where
  "setHours z t h m s ms =
     (let lt = LocalTime z t;
          date = MakeDate (Day lt) (MakeTime h m s ms)
      in TimeClip (UTC z date))"

subsection \<open>Parsing a timestamp: \<open>new Date(string)\<close>\<close>

text \<open>
  The strings recognised here are those of the ECMAScript date-time string format as
  the engine of the browser reads it: a date \<open>YYYY\<close>, \<open>YYYY-MM\<close> or \<open>YYYY-MM-DD\<close>, alone
  (then in UTC) or followed by \<open>T\<close> and a time \<open>HH:mm\<close>, \<open>HH:mm:ss\<close> or \<open>HH:mm:ss.f\<close>
  with one to nine digits of fraction (the first three are the milliseconds), and then
  \<open>Z\<close>, an offset \<open>+HH:mm\<close> or \<open>-HH:mm\<close>, or nothing (then in local time). The hour
  \<open>24\<close> is read when minutes, seconds and fraction are zero. The day must exist in its
  month. For every other string the language leaves the result to the engine: that
  result is the parameter \<open>other\<close> of \<open>Date_parse\<close>.
\<close>

definition digit_val :: "char \<Rightarrow> nat option" where
  "digit_val c =
     (let n = (of_char c :: nat) in if 48 \<le> n \<and> n \<le> 57 then Some (n - 48) else None)"

definition is_digit :: "char \<Rightarrow> bool" where
  "is_digit c = (case digit_val c of None \<Rightarrow> False | Some d \<Rightarrow> True)"

fun read_digits :: "nat \<Rightarrow> string \<Rightarrow> nat option" where
  "read_digits acc [] = Some acc"
| "read_digits acc (c # cs) =
     (case digit_val c of None \<Rightarrow> None | Some d \<Rightarrow> read_digits (10 * acc + d) cs)"

definition read_nat :: "string \<Rightarrow> nat option" where
  "read_nat s = (if s = [] then None else read_digits 0 s)"

text \<open>The first \<open>n\<close> characters of \<open>s\<close>, when they are \<open>n\<close> digits, as a number.\<close>

definition number :: "nat \<Rightarrow> string \<Rightarrow> int option" where
  "number n s = (if length s < n then None else map_option int (read_nat (take n s)))"

definition starts :: "char \<Rightarrow> string \<Rightarrow> bool" where
  "starts c s = (case s of [] \<Rightarrow> False | x # xs \<Rightarrow> x = c)"

definition DaysInMonth :: "int \<Rightarrow> int \<Rightarrow> int" where
  "DaysInMonth y m =
     (if m = 2 then (if InLeapYear y then 29 else 28)
      else if m = 4 \<or> m = 6 \<or> m = 9 \<or> m = 11 then 30
      else 31)"

text \<open>The date: year, month and day (1 when absent), and the rest of the string.\<close>

definition parse_date :: "string \<Rightarrow> ((int \<times> int \<times> int) \<times> string) option" where
  "parse_date s =
     (case number 4 s of
        None \<Rightarrow> None
      | Some y \<Rightarrow>
          (let r1 = drop 4 s
           in if \<not> starts CHR ''-'' r1 then Some ((y, 1, 1), r1)
              else
                (case number 2 (drop 1 r1) of
                   None \<Rightarrow> None
                 | Some mo \<Rightarrow>
                     if mo < 1 \<or> 12 < mo then None
                     else
                       (let r2 = drop 3 r1
                        in if \<not> starts CHR ''-'' r2 then Some ((y, mo, 1), r2)
                           else
                             (case number 2 (drop 1 r2) of
                                None \<Rightarrow> None
                              | Some d \<Rightarrow>
                                  if d < 1 \<or> DaysInMonth y mo < d then None
                                  else Some ((y, mo, d), drop 3 r2))))))"

text \<open>The fraction after the point: its milliseconds, its value as a number, and the
  rest.\<close>

definition parse_fraction :: "string \<Rightarrow> ((int \<times> int) \<times> string) option" where
  "parse_fraction s =
     (let ds = takeWhile is_digit s
      in if ds = [] \<or> 9 < length ds then None
         else
           (case (read_nat (take 3 (ds @ ''00'')), read_nat ds) of
              (Some ms, Some v) \<Rightarrow> Some ((int ms, int v), drop (length ds) s)
            | _ \<Rightarrow> None))"

text \<open>The seconds with their optional fraction: seconds, milliseconds, the value of the
  fraction, and the rest.\<close>

definition parse_seconds :: "string \<Rightarrow> ((int \<times> int \<times> int) \<times> string) option" where
  "parse_seconds r =
     (case number 2 r of
        None \<Rightarrow> None
      | Some sec \<Rightarrow>
          (let r1 = drop 2 r
           in if starts CHR ''.'' r1
              then (case parse_fraction (drop 1 r1) of
                      None \<Rightarrow> None
                    | Some ((ms, v), r2) \<Rightarrow> Some ((sec, ms, v), r2))
              else Some ((sec, 0, 0), r1)))"

text \<open>The time after the \<open>T\<close>: the time within the day, and the rest.\<close>

definition parse_clock :: "string \<Rightarrow> (int \<times> string) option" where
  "parse_clock r =
     (case number 2 r of
        None \<Rightarrow> None
      | Some h \<Rightarrow>
          if \<not> starts CHR '':'' (drop 2 r) then None
          else
            (case number 2 (drop 3 r) of
               None \<Rightarrow> None
             | Some mi \<Rightarrow>
                 (let r2 = drop 5 r
                  in case (if starts CHR '':'' r2 then parse_seconds (drop 1 r2)
                           else Some ((0, 0, 0), r2)) of
                       None \<Rightarrow> None
                     | Some ((sec, ms, v), r3) \<Rightarrow>
                         if 24 < h \<or> 59 < mi \<or> 59 < sec then None
                         else if h = 24 \<and> (0 < mi \<or> 0 < sec \<or> 0 < v) then None
                         else Some (MakeTime h mi sec ms, r3))))"

text \<open>The zone designator: \<open>Some None\<close> when there is none (local time), \<open>Some (Some off)\<close>
  for \<open>Z\<close> or an offset.\<close>

definition parse_offset :: "string \<Rightarrow> int option option" where
  "parse_offset z =
     (if z = [] then Some None
      else if z = ''Z'' then Some (Some 0)
      else if length z = 6 \<and> (starts CHR ''+'' z \<or> starts CHR ''-'' z) \<and> starts CHR '':'' (drop 3 z)
      then
        (case (number 2 (drop 1 z), number 2 (drop 4 z)) of
           (Some h, Some m) \<Rightarrow>
             if 23 < h \<or> 59 < m then None
             else Some (Some ((if starts CHR ''-'' z then - 1 else 1) * (h * 3600000 + m * 60000)))
         | _ \<Rightarrow> None)
      else None)"

definition Date_recognised :: "zone \<Rightarrow> string \<Rightarrow> int option" where
  "Date_recognised z s =
     (case parse_date s of
        None \<Rightarrow> None
      | Some ((y, mo, d), r) \<Rightarrow>
          (let day = MakeDay y (mo - 1) d
           in if r = [] then Some (MakeDate day 0)
              else if \<not> starts CHR ''T'' r then None
              else
                (case parse_clock (drop 1 r) of
                   None \<Rightarrow> None
                 | Some (time, zd) \<Rightarrow>
                     (case parse_offset zd of
                        None \<Rightarrow> None
                      | Some None \<Rightarrow> Some (UTC z (MakeDate day time))
                      | Some (Some off) \<Rightarrow> Some (MakeDate day time - off)))))"

definition Date_parse :: "zone \<Rightarrow> (string \<Rightarrow> int option) \<Rightarrow> string \<Rightarrow> int option" where
  "Date_parse z other s =
     (case Date_recognised z s of None \<Rightarrow> other s | Some t \<Rightarrow> TimeClip t)"

text \<open>An engine that reads no other string.\<close>

definition no_other :: "string \<Rightarrow> int option" where
  "no_other s = None"

section \<open>Events, requests and responses\<close>

text \<open>
  A calendar event as the provider's JSON gives it. \<open>ev_start\<close> and \<open>ev_end\<close> are the
  \<open>start\<close> and \<open>end\<close> objects (absent: \<open>None\<close>), \<open>syncedEvent\<close> is
  \<open>extendedProperties?.private?.syncedEvent\<close>, \<open>syncTime\<close> the instant whose ISO rendering
  is stored beside it.
\<close>

record timepoint =
  dateTime :: "string option"
  timeZone :: "string option"

record event =
  event_id :: string
  summary :: string
  ev_start :: "timepoint option"
  ev_end :: "timepoint option"
  transparency :: string
  visibility :: string
  description :: string
  syncedEvent :: "string option"
  syncTime :: "int option"

record list_params =
  timeMin :: int
  timeMax :: int
  singleEvents :: string
  orderBy :: string
  maxResults :: string
  pageToken :: "string option"

datatype request =
    GET_events string list_params
  | POST_event string event
  | DELETE_event string string

record response =
  status :: nat
  items :: "event list option"
  nextPageToken :: "string option"

definition ok :: "response \<Rightarrow> bool" where
  "ok r = (200 \<le> status r \<and> status r \<le> 299)"

datatype cause = Http nat | Thrown string

datatype error =
    SettingsNotConfigured
  | CalendarIdRequired
  | FetchFailed cause
  | CreateFailed
  | DeleteFailed
  | CleanupFailed
  | TypeError
  | RangeError
  | StorageError string

record settings =
  targetCalendar :: string
  sourceCalendars :: "string list"
  weeksAhead :: int

text \<open>
  The authentication and storage services are collaborators whose code is not among the
  sources of the calendar and sync services; they are parameters. \<open>request\<close> is
  \<open>authService.makeAuthenticatedRequest\<close> acting on the provider's state \<open>'p\<close>
  (\<open>Inl\<close>: the promise is rejected with that message). \<open>getSettings\<close> is the outcome of
  \<open>storageService.getSettings()\<close> (\<open>Inl\<close>: rejected; \<open>Inr None\<close>: nothing stored; an
  absent or empty \<open>targetCalendar\<close> is \<open>[]\<close>, an absent or empty \<open>sourceCalendars\<close> is
  \<open>[]\<close>; \<open>weeksAhead\<close> is the integer that the popup stores). \<open>clock\<close> gives the
  successive readings of \<open>new Date()\<close>, \<open>LocalTZA\<close> is the local time zone of the
  runtime, and \<open>Date_parse_other\<close> is what its engine makes of a timestamp outside the
  recognised forms.
\<close>

record 'p env =
  request :: "request \<Rightarrow> 'p \<Rightarrow> (string + response) \<times> 'p"
  getSettings :: "string + settings option"
  clock :: "nat \<Rightarrow> int"
  LocalTZA :: zone
  Date_parse_other :: "string \<Rightarrow> int option"

text \<open>The world a run acts on: the provider, the requests issued so far, and the number
  of clock readings taken.\<close>

record 'p world =
  provider :: 'p
  calls :: "request list"
  ticks :: nat

definition makeAuthenticatedRequest ::
  "'p env \<Rightarrow> request \<Rightarrow> 'p world \<Rightarrow> (string + response) \<times> 'p world" where
  "makeAuthenticatedRequest env rq w =
     (case request env rq (provider w) of
        (r, p') \<Rightarrow> (r, w\<lparr>provider := p', calls := calls w @ [rq]\<rparr>))"

definition new_Date :: "'p env \<Rightarrow> 'p world \<Rightarrow> int \<times> 'p world" where
  "new_Date env w = (clock env (ticks w), w\<lparr>ticks := Suc (ticks w)\<rparr>)"

section \<open>The calendar service\<close>

record options =
  opt_maxResults :: "string option"
  opt_pageToken :: "string option"

definition no_options :: options where
  "no_options = \<lparr>opt_maxResults = None, opt_pageToken = None\<rparr>"

text \<open>The query parameters. \<open>timeMin\<close> and \<open>timeMax\<close> stand for the ISO renderings of
  the two instants. \<open>maxResults\<close> is \<open>options.maxResults || '2500'\<close>, and the options
  that are not null are then spread over the parameters, so a \<open>maxResults\<close> that is given
  is sent as it is.\<close>

definition query_params :: "int \<Rightarrow> int \<Rightarrow> options \<Rightarrow> list_params" where
  "query_params tMin tMax opts =
     \<lparr>timeMin = tMin, timeMax = tMax, singleEvents = ''true'', orderBy = ''startTime'',
      maxResults = (case opt_maxResults opts of None \<Rightarrow> ''2500'' | Some m \<Rightarrow> m),
      pageToken = opt_pageToken opts\<rparr>"

definition fetchEvents ::
  "'p env \<Rightarrow> string \<Rightarrow> int \<Rightarrow> int \<Rightarrow> options \<Rightarrow> 'p world \<Rightarrow> (error + event list) \<times> 'p world" where
  "fetchEvents env calendarId tMin tMax opts w =
     (if calendarId = [] then (Inl CalendarIdRequired, w)
      else
        case makeAuthenticatedRequest env
               (GET_events calendarId (query_params tMin tMax opts)) w of
          (Inl msg, w') \<Rightarrow> (Inl (FetchFailed (Thrown msg)), w')
        | (Inr resp, w') \<Rightarrow>
            if \<not> ok resp then (Inl (FetchFailed (Http (status resp))), w')
            else (Inr (case items resp of None \<Rightarrow> [] | Some xs \<Rightarrow> xs), w'))"

text \<open>\<open>fetchEvents\<close> above takes the time values of two valid Dates. Called with Date
  objects, it tests the calendar id first and then logs \<open>timeMin.toISOString()\<close> and
  \<open>timeMax.toISOString()\<close>, which throw a RangeError on an Invalid Date, before the
  \<open>try\<close> block and before any request.\<close>

definition fetchEvents_of_Dates ::
  "'p env \<Rightarrow> string \<Rightarrow> int option \<Rightarrow> int option \<Rightarrow> options \<Rightarrow> 'p world
     \<Rightarrow> (error + event list) \<times> 'p world" where
  "fetchEvents_of_Dates env calendarId timeMinDate timeMaxDate opts w =
     (if calendarId = [] then (Inl CalendarIdRequired, w)
      else
        case timeMinDate of
          None \<Rightarrow> (Inl RangeError, w)
        | Some tMin \<Rightarrow>
            (case timeMaxDate of
               None \<Rightarrow> (Inl RangeError, w)
             | Some tMax \<Rightarrow> fetchEvents env calendarId tMin tMax opts w))"

text \<open>\<open>!x?.dateTime\<close>: the object or the field is absent, or the string is empty.\<close>

definition no_dateTime :: "timepoint option \<Rightarrow> bool" where
  "no_dateTime tp =
     (case tp of
        None \<Rightarrow> True
      | Some p \<Rightarrow> (case dateTime p of None \<Rightarrow> True | Some s \<Rightarrow> s = []))"

definition the_dateTime :: "timepoint option \<Rightarrow> string" where
  "the_dateTime tp =
     (case tp of
        None \<Rightarrow> []
      | Some p \<Rightarrow> (case dateTime p of None \<Rightarrow> [] | Some s \<Rightarrow> s))"

definition the_timeZone :: "timepoint option \<Rightarrow> string option" where
  "the_timeZone tp = (case tp of None \<Rightarrow> None | Some p \<Rightarrow> timeZone p)"

text \<open>\<open>startTime.getDate() !== endTime.getDate()\<close>: the days of the month differ in
  local time; an Invalid Date has the day \<open>NaN\<close>, which differs from everything.\<close>

definition dates_differ :: "zone \<Rightarrow> (string \<Rightarrow> int option) \<Rightarrow> string \<Rightarrow> string \<Rightarrow> bool" where
  "dates_differ z other s e =
     (case (Date_parse z other s, Date_parse z other e) of
        (Some a, Some b) \<Rightarrow> getDate z a \<noteq> getDate z b
      | _ \<Rightarrow> True)"

definition busyEvent :: "event \<Rightarrow> int \<Rightarrow> event" where
  "busyEvent sourceEvent now =
     \<lparr>event_id = [],
      summary = ''Busy'',
      ev_start = Some \<lparr>dateTime = Some (the_dateTime (ev_start sourceEvent)),
                       timeZone = the_timeZone (ev_start sourceEvent)\<rparr>,
      ev_end = Some \<lparr>dateTime = Some (the_dateTime (ev_end sourceEvent)),
                     timeZone = the_timeZone (ev_end sourceEvent)\<rparr>,
      transparency = ''opaque'',
      visibility = ''private'',
      description = ''Automatically synced busy time'',
      syncedEvent = Some ''true'',
      syncTime = Some now\<rparr>"

text \<open>\<open>createBusyEvent\<close> returns \<open>None\<close> for \<open>null\<close> (the event is skipped) and otherwise
  the provider's response.\<close>

definition createBusyEvent ::
  "'p env \<Rightarrow> string \<Rightarrow> event \<Rightarrow> 'p world \<Rightarrow> (error + response option) \<times> 'p world" where
  "createBusyEvent env calendarId sourceEvent w =
     (if no_dateTime (ev_start sourceEvent) \<or> no_dateTime (ev_end sourceEvent)
      then (Inr None, w)
      else if dates_differ (LocalTZA env) (Date_parse_other env)
                (the_dateTime (ev_start sourceEvent)) (the_dateTime (ev_end sourceEvent))
      then (Inr None, w)
      else
        case new_Date env w of
          (now, w0) \<Rightarrow>
            (case makeAuthenticatedRequest env
                    (POST_event calendarId (busyEvent sourceEvent now)) w0 of
               (Inl msg, w') \<Rightarrow> (Inl CreateFailed, w')
             | (Inr resp, w') \<Rightarrow>
                 if \<not> ok resp then (Inl CreateFailed, w') else (Inr (Some resp), w')))"

definition deleteEvent ::
  "'p env \<Rightarrow> string \<Rightarrow> string \<Rightarrow> 'p world \<Rightarrow> (error + unit) \<times> 'p world" where
  "deleteEvent env calendarId eventId w =
     (case makeAuthenticatedRequest env (DELETE_event calendarId eventId) w of
        (Inl msg, w') \<Rightarrow> (Inl DeleteFailed, w')
      | (Inr resp, w') \<Rightarrow>
          if \<not> ok resp then (Inl DeleteFailed, w') else (Inr (), w'))"

definition tagged :: "event \<Rightarrow> bool" where
  "tagged e = (syncedEvent e = Some ''true'')"

text \<open>\<open>data.nextPageToken\<close> in \<open>cleanupSyncedEvents\<close> is read from the value that
  \<open>fetchEvents\<close> returned, which is the array of items: an array has no such property,
  so the read gives \<open>undefined\<close>.\<close>

definition array_nextPageToken :: "event list \<Rightarrow> string option" where
  "array_nextPageToken data = None"

text \<open>The \<open>do ... while (pageToken)\<close> loop; a token is truthy when it is a non-empty
  string.\<close>

function cleanup_pages ::
  "'p env \<Rightarrow> string \<Rightarrow> int \<Rightarrow> int \<Rightarrow> string option \<Rightarrow> event list \<Rightarrow> 'p world
     \<Rightarrow> (error + event list) \<times> 'p world" where
  "cleanup_pages env calendarId startTime endTime pageTok allEvents w =
     (case fetchEvents env calendarId startTime endTime
             \<lparr>opt_maxResults = None, opt_pageToken = pageTok\<rparr> w of
        (Inl e, w') \<Rightarrow> (Inl e, w')
      | (Inr data, w') \<Rightarrow>
          (case array_nextPageToken data of
             None \<Rightarrow> (Inr (allEvents @ data), w')
           | Some t \<Rightarrow>
               if t = [] then (Inr (allEvents @ data), w')
               else cleanup_pages env calendarId startTime endTime (Some t)
                      (allEvents @ data) w'))"
  by pat_completeness auto
termination
  by (relation "{}") (auto simp: array_nextPageToken_def)

fun delete_all :: "'p env \<Rightarrow> string \<Rightarrow> event list \<Rightarrow> 'p world \<Rightarrow> (error + unit) \<times> 'p world" where
  "delete_all env calendarId [] w = (Inr (), w)"
| "delete_all env calendarId (ev # evs) w =
     (case deleteEvent env calendarId (event_id ev) w of
        (Inl e, w') \<Rightarrow> (Inl e, w')
      | (Inr u, w') \<Rightarrow> delete_all env calendarId evs w')"

definition cleanupSyncedEvents ::
  "'p env \<Rightarrow> string \<Rightarrow> int \<Rightarrow> int \<Rightarrow> 'p world \<Rightarrow> (error + nat) \<times> 'p world" where
  "cleanupSyncedEvents env calendarId startTime endTime w =
     (case cleanup_pages env calendarId startTime endTime None [] w of
        (Inl e, w') \<Rightarrow> (Inl e, w')
      | (Inr allEvents, w') \<Rightarrow>
          (let syncedEvents = filter tagged allEvents
           in case delete_all env calendarId syncedEvents w' of
                (Inl e, w'') \<Rightarrow> (Inl e, w'')
              | (Inr u, w'') \<Rightarrow> (Inr (length syncedEvents), w'')))"

section \<open>The sync service\<close>

record sync_state =
  syncInProgress :: bool
  lastSyncTime :: "int option"

definition initial_state :: sync_state where
  "initial_state = \<lparr>syncInProgress = False, lastSyncTime = None\<rparr>"

definition getLastSyncTime :: "sync_state \<Rightarrow> int option" where
  "getLastSyncTime s = lastSyncTime s"

definition isSyncing :: "sync_state \<Rightarrow> bool" where
  "isSyncing s = syncInProgress s"

text \<open>\<open>String.prototype.trim\<close> on the characters of a byte string.\<close>

definition is_space :: "char \<Rightarrow> bool" where
  "is_space c = (let n = (of_char c :: nat) in (9 \<le> n \<and> n \<le> 13) \<or> n = 32 \<or> n = 160)"

definition trim :: "string \<Rightarrow> string" where
  "trim s = rev (dropWhile is_space (rev (dropWhile is_space s)))"

text \<open>A template literal renders an absent value as \<open>undefined\<close>. Reading \<open>dateTime\<close>
  from an absent \<open>start\<close> or \<open>end\<close> throws a TypeError.\<close>

definition interpolate :: "string option \<Rightarrow> string" where
  "interpolate v = (case v of None \<Rightarrow> ''undefined'' | Some s \<Rightarrow> s)"

definition createEventKey :: "timepoint option \<Rightarrow> timepoint option \<Rightarrow> error + string" where
  "createEventKey st en =
     (case st of
        None \<Rightarrow> Inl TypeError
      | Some s \<Rightarrow>
          (case en of
             None \<Rightarrow> Inl TypeError
           | Some e \<Rightarrow> Inr (interpolate (dateTime s) @ ''_'' @ interpolate (dateTime e))))"

text \<open>A JavaScript \<open>Map\<close> as an association list in insertion order: setting a key that
  is present replaces its value in place. A \<open>Set\<close> is a list without repetition.\<close>

fun Map_set :: "(string \<times> 'v) list \<Rightarrow> string \<Rightarrow> 'v \<Rightarrow> (string \<times> 'v) list" where
  "Map_set [] k v = [(k, v)]"
| "Map_set ((k', v') # m) k v =
     (if k' = k then (k, v) # m else (k', v') # Map_set m k v)"

definition Map_has :: "(string \<times> 'v) list \<Rightarrow> string \<Rightarrow> bool" where
  "Map_has m k = (k \<in> set (map fst m))"

definition new_Map :: "(string \<times> 'v) list \<Rightarrow> (string \<times> 'v) list" where
  "new_Map entries = foldl (\<lambda>m (k, v). Map_set m k v) [] entries"

definition Set_add :: "string list \<Rightarrow> string \<Rightarrow> string list" where
  "Set_add ks k = (if k \<in> set ks then ks else ks @ [k])"

definition Set_has :: "string list \<Rightarrow> string \<Rightarrow> bool" where
  "Set_has ks k = (k \<in> set ks)"

text \<open>\<open>.map(event => [this._createEventKey(event), event])\<close> over the tagged events.\<close>

fun key_entries :: "event list \<Rightarrow> error + (string \<times> event) list" where
  "key_entries [] = Inr []"
| "key_entries (ev # evs) =
     (case createEventKey (ev_start ev) (ev_end ev) of
        Inl e \<Rightarrow> Inl e
      | Inr k \<Rightarrow> (case key_entries evs of Inl e \<Rightarrow> Inl e | Inr rest \<Rightarrow> Inr ((k, ev) # rest)))"

text \<open>The loop over the events of one source calendar.\<close>

fun sync_events ::
  "'p env \<Rightarrow> string \<Rightarrow> (string \<times> event) list \<Rightarrow> event list \<Rightarrow> string list \<Rightarrow> 'p world
     \<Rightarrow> (error + string list) \<times> 'p world" where
  "sync_events env targetCal existingSyncedMap [] eventsToKeep w = (Inr eventsToKeep, w)"
| "sync_events env targetCal existingSyncedMap (ev # evs) eventsToKeep w =
     (if no_dateTime (ev_start ev) \<or> no_dateTime (ev_end ev)
      then sync_events env targetCal existingSyncedMap evs eventsToKeep w
      else if dates_differ (LocalTZA env) (Date_parse_other env)
                (the_dateTime (ev_start ev)) (the_dateTime (ev_end ev))
      then sync_events env targetCal existingSyncedMap evs eventsToKeep w
      else
        case createEventKey (Some \<lparr>dateTime = Some (the_dateTime (ev_start ev)), timeZone = None\<rparr>)
               (Some \<lparr>dateTime = Some (the_dateTime (ev_end ev)), timeZone = None\<rparr>) of
          Inl e \<Rightarrow> (Inl e, w)
        | Inr eventKey \<Rightarrow>
            (case (if \<not> Map_has existingSyncedMap eventKey
                   then createBusyEvent env targetCal ev w
                   else (Inr None, w)) of
               (Inl e, w') \<Rightarrow> (Inl e, w')
             | (Inr created, w') \<Rightarrow>
                 sync_events env targetCal existingSyncedMap evs (Set_add eventsToKeep eventKey) w'))"

text \<open>The loop over the source calendars.\<close>

fun sync_sources ::
  "'p env \<Rightarrow> string \<Rightarrow> int option \<Rightarrow> int option \<Rightarrow> (string \<times> event) list \<Rightarrow> string list
     \<Rightarrow> string list \<Rightarrow> 'p world \<Rightarrow> (error + string list) \<times> 'p world" where
  "sync_sources env targetCal startTime endTime existingSyncedMap [] eventsToKeep w =
     (Inr eventsToKeep, w)"
| "sync_sources env targetCal startTime endTime existingSyncedMap (sourceCal # rest) eventsToKeep w =
     (case fetchEvents_of_Dates env sourceCal startTime endTime no_options w of
        (Inl e, w') \<Rightarrow> (Inl e, w')
      | (Inr events, w') \<Rightarrow>
          (case sync_events env targetCal existingSyncedMap events eventsToKeep w' of
             (Inl e, w'') \<Rightarrow> (Inl e, w'')
           | (Inr keep, w'') \<Rightarrow>
               sync_sources env targetCal startTime endTime existingSyncedMap rest keep w''))"

text \<open>The loop that deletes the synced events whose key is not kept.\<close>

fun delete_obsolete ::
  "'p env \<Rightarrow> string \<Rightarrow> (string \<times> event) list \<Rightarrow> string list \<Rightarrow> 'p world
     \<Rightarrow> (error + unit) \<times> 'p world" where
  "delete_obsolete env targetCal [] eventsToKeep w = (Inr (), w)"
| "delete_obsolete env targetCal ((eventKey, ev) # rest) eventsToKeep w =
     (if \<not> Set_has eventsToKeep eventKey
      then (case deleteEvent env targetCal (event_id ev) w of
              (Inl e, w') \<Rightarrow> (Inl e, w')
            | (Inr u, w') \<Rightarrow> delete_obsolete env targetCal rest eventsToKeep w')
      else delete_obsolete env targetCal rest eventsToKeep w)"

text \<open>The time range of a run: \<open>new Date()\<close> twice, each moved by \<open>setDate\<close>.\<close>

definition sync_window ::
  "'p env \<Rightarrow> settings \<Rightarrow> 'p world \<Rightarrow> (int option \<times> int option) \<times> 'p world" where
  "sync_window env st w =
     (case new_Date env w of
        (now1, w1) \<Rightarrow>
          (let startTime = setDate (LocalTZA env) now1 (getDate (LocalTZA env) now1 - 7)
           in case new_Date env w1 of
                (now2, w2) \<Rightarrow>
                  (let endTime = setDate (LocalTZA env) now2
                                   (getDate (LocalTZA env) now2 + weeksAhead st * 7)
                   in ((startTime, endTime), w2))))"

text \<open>What \<open>performSync\<close> does once the settings are read and pass the check: from the
  computation of the time range to the last delete.\<close>

definition reconcile ::
  "'p env \<Rightarrow> settings \<Rightarrow> 'p world \<Rightarrow> (error + unit) \<times> 'p world" where
  "reconcile env st w =
     (let targetCal = trim (targetCalendar st);
          sourceCals = map trim (sourceCalendars st)
      in case sync_window env st w of
           ((startTime, endTime), w2) \<Rightarrow>
             (case fetchEvents_of_Dates env targetCal startTime endTime no_options w2 of
                (Inl e, w3) \<Rightarrow> (Inl e, w3)
              | (Inr existingSyncedEvents, w3) \<Rightarrow>
                  (case key_entries (filter tagged existingSyncedEvents) of
                     Inl e \<Rightarrow> (Inl e, w3)
                   | Inr entries \<Rightarrow>
                       (let existingSyncedMap = new_Map entries
                        in case sync_sources env targetCal startTime endTime
                                  existingSyncedMap sourceCals [] w3 of
                             (Inl e, w4) \<Rightarrow> (Inl e, w4)
                           | (Inr eventsToKeep, w4) \<Rightarrow>
                               delete_obsolete env targetCal existingSyncedMap
                                 eventsToKeep w4))))"

text \<open>The body of the \<open>try\<close> block from its first \<open>await\<close>; on success it yields the new
  last-sync time.\<close>

definition performSync_try :: "'p env \<Rightarrow> 'p world \<Rightarrow> (error + int) \<times> 'p world" where
  "performSync_try env w =
     (case getSettings env of
        Inl msg \<Rightarrow> (Inl (StorageError msg), w)
      | Inr None \<Rightarrow> (Inl SettingsNotConfigured, w)
      | Inr (Some st) \<Rightarrow>
          if targetCalendar st = [] \<or> sourceCalendars st = []
          then (Inl SettingsNotConfigured, w)
          else
            (case reconcile env st w of
               (Inl e, w') \<Rightarrow> (Inl e, w')
             | (Inr u, w') \<Rightarrow> (case new_Date env w' of (now, w'') \<Rightarrow> (Inr now, w''))))"

text \<open>
  \<open>performSync\<close> is an \<open>async\<close> function: it runs without interruption up to its first
  \<open>await\<close>, and other calls to the service can run only while it is suspended at an
  \<open>await\<close>. \<open>performSync_enter\<close> is the part before the first \<open>await\<close> (the one on
  \<open>getSettings\<close>): the latch check, which returns at once (\<open>None\<close>) when the latch is
  held, and the first statement of the \<open>try\<close> block, which takes the latch.
  \<open>performSync_resume\<close> is the rest of the call, in the state of the service that it
  finds: the body of the \<open>try\<close> block, which does not touch the state of the service
  before its last statement (the assignment of the last-sync time), then \<open>catch\<close>
  (rethrow) and \<open>finally\<close> (release the latch).
\<close>

definition performSync_enter :: "sync_state \<Rightarrow> sync_state option" where
  "performSync_enter s =
     (if syncInProgress s then None else Some (s\<lparr>syncInProgress := True\<rparr>))"

definition performSync_resume ::
  "'p env \<Rightarrow> sync_state \<Rightarrow> 'p world \<Rightarrow> (error + unit) \<times> sync_state \<times> 'p world" where
  "performSync_resume env s1 w =
     (case performSync_try env w of
        (Inl e, w') \<Rightarrow> (Inl e, s1\<lparr>syncInProgress := False\<rparr>, w')
      | (Inr now, w') \<Rightarrow>
          (Inr (), s1\<lparr>lastSyncTime := Some now, syncInProgress := False\<rparr>, w'))"

definition performSync ::
  "'p env \<Rightarrow> sync_state \<Rightarrow> 'p world \<Rightarrow> (error + unit) \<times> sync_state \<times> 'p world" where
  "performSync env s w =
     (case performSync_enter s of
        None \<Rightarrow> (Inr (), s, w)
      | Some s1 \<Rightarrow> performSync_resume env s1 w)"

text \<open>Two calls that overlap: the first call runs up to its first \<open>await\<close>, the second
  call is made (by \<open>env'\<close>, on the same service and world) while the first is suspended
  there, and then the first call resumes. The result is the outcome of the first call,
  the outcome of the second, and the state and world at the end.\<close>

definition performSync_overlapped ::
  "'p env \<Rightarrow> 'p env \<Rightarrow> sync_state \<Rightarrow> 'p world
     \<Rightarrow> (error + unit) \<times> (error + unit) \<times> sync_state \<times> 'p world" where
  "performSync_overlapped env env' s w =
     (case performSync_enter s of
        None \<Rightarrow> (case performSync env' s w of (r2, s2, w2) \<Rightarrow> (Inr (), r2, s2, w2))
      | Some s1 \<Rightarrow>
          (case performSync env' s1 w of
             (r2, s2, w2) \<Rightarrow>
               (case performSync_resume env s2 w2 of
                  (r1, s3, w3) \<Rightarrow> (r1, r2, s3, w3))))"

record date_range =
  cleanupStart :: "int option"
  startDate :: "int option"
  endDate :: "int option"

definition getDateRange :: "'p env \<Rightarrow> int \<Rightarrow> 'p world \<Rightarrow> date_range \<times> 'p world" where
  "getDateRange env weeks w =
     (case new_Date env w of
        (now, w') \<Rightarrow>
          (let z = LocalTZA env;
               startD = setHours z now 0 0 0 0;
               endD = (case startD of
                         None \<Rightarrow> None
                       | Some sd \<Rightarrow>
                           (case setDate z sd (getDate z sd + weeks * 7) of
                              None \<Rightarrow> None
                            | Some ed \<Rightarrow> setHours z ed 23 59 59 999));
               cleanupS = (case startD of
                             None \<Rightarrow> None
                           | Some sd \<Rightarrow> setDate z sd (getDate z sd - 7))
           in (\<lparr>cleanupStart = cleanupS, startDate = startD, endDate = endD\<rparr>, w')))"

text \<open>The value an \<open>async\<close> function resolves to: \<open>cleanupAll\<close> has no \<open>return\<close>
  statement, so it resolves to \<open>undefined\<close>. With an Invalid Date in the range,
  \<open>fetchEvents\<close> throws before any request, and \<open>cleanupAll\<close> turns every error into
  \<open>CleanupFailed\<close>.\<close>

datatype js_value = Undefined | Number nat

definition cleanupAll :: "'p env \<Rightarrow> 'p world \<Rightarrow> (error + js_value) \<times> 'p world" where
  "cleanupAll env w =
     (case getSettings env of
        Inl msg \<Rightarrow> (Inl CleanupFailed, w)
      | Inr None \<Rightarrow> (Inl CleanupFailed, w)
      | Inr (Some st) \<Rightarrow>
          if targetCalendar st = [] then (Inl CleanupFailed, w)
          else
            (case getDateRange env (if weeksAhead st = 0 then 1 else weeksAhead st) w of
               (dr, w1) \<Rightarrow>
                 (case cleanupStart dr of
                    None \<Rightarrow> (Inl CleanupFailed, w1)
                  | Some startTime \<Rightarrow>
                      (case endDate dr of
                         None \<Rightarrow> (Inl CleanupFailed, w1)
                       | Some endTime \<Rightarrow>
                           (case cleanupSyncedEvents env (targetCalendar st) startTime endTime w1 of
                              (Inl e, w') \<Rightarrow> (Inl CleanupFailed, w')
                            | (Inr n, w') \<Rightarrow> (Inr Undefined, w'))))))"

section \<open>Two providers to run the services against\<close>

text \<open>
  \<open>gcal\<close> is a calendar store: a calendar lists its events that meet the window, a page
  at a time (at most \<open>pageCap\<close> events, and at most \<open>maxResults\<close>), stores a posted event
  as it is under a fresh id, and answers 404 to a request on what it does not hold.
\<close>

record gcal =
  calendars :: "(string \<times> event list) list"
  issued :: nat
  pageCap :: nat

fun show_nat :: "nat \<Rightarrow> string" where
  "show_nat n =
     (if n < 10 then [char_of (48 + n)] else show_nat (n div 10) @ [char_of (48 + n mod 10)])"

definition in_window :: "int \<Rightarrow> int \<Rightarrow> event \<Rightarrow> bool" where
  "in_window tMin tMax e =
     (case (Date_parse (fixed_zone 0) no_other (the_dateTime (ev_start e)),
            Date_parse (fixed_zone 0) no_other (the_dateTime (ev_end e))) of
        (Some a, Some b) \<Rightarrow> tMin < b \<and> a < tMax
      | _ \<Rightarrow> True)"

definition put_calendar ::
  "string \<Rightarrow> event list \<Rightarrow> (string \<times> event list) list \<Rightarrow> (string \<times> event list) list" where
  "put_calendar c evs cs = map (\<lambda>(k, v). if k = c then (k, evs) else (k, v)) cs"

definition not_found :: response where
  "not_found = \<lparr>status = 404, items = None, nextPageToken = None\<rparr>"

fun gcal_request :: "request \<Rightarrow> gcal \<Rightarrow> (string + response) \<times> gcal" where
  "gcal_request (GET_events c p) g =
     (case map_of (calendars g) c of
        None \<Rightarrow> (Inr not_found, g)
      | Some evs \<Rightarrow>
          (let listed = filter (in_window (timeMin p) (timeMax p)) evs;
               off = (case pageToken p of
                        None \<Rightarrow> 0
                      | Some t \<Rightarrow> (case read_nat t of None \<Rightarrow> 0 | Some n \<Rightarrow> n));
               size = min (pageCap g) (case read_nat (maxResults p) of None \<Rightarrow> 250 | Some n \<Rightarrow> n)
           in (Inr \<lparr>status = 200, items = Some (take size (drop off listed)),
                    nextPageToken = (if off + size < length listed
                                     then Some (show_nat (off + size)) else None)\<rparr>, g)))"
| "gcal_request (POST_event c body) g =
     (case map_of (calendars g) c of
        None \<Rightarrow> (Inr not_found, g)
      | Some evs \<Rightarrow>
          (Inr \<lparr>status = 200, items = None, nextPageToken = None\<rparr>,
           g\<lparr>calendars := put_calendar c
                             (evs @ [body\<lparr>event_id := ''evt'' @ show_nat (issued g)\<rparr>])
                             (calendars g),
             issued := Suc (issued g)\<rparr>))"
| "gcal_request (DELETE_event c i) g =
     (case map_of (calendars g) c of
        None \<Rightarrow> (Inr not_found, g)
      | Some evs \<Rightarrow>
          if i \<in> set (map event_id evs)
          then (Inr \<lparr>status = 204, items = None, nextPageToken = None\<rparr>,
                g\<lparr>calendars := put_calendar c (filter (\<lambda>e. event_id e \<noteq> i) evs) (calendars g)\<rparr>)
          else (Inr not_found, g))"

text \<open>\<open>scripted\<close> answers the requests with a prepared list of outcomes, in order.\<close>

definition scripted_request ::
  "request \<Rightarrow> (string + response) list \<Rightarrow> (string + response) \<times> (string + response) list" where
  "scripted_request rq rs =
     (case rs of [] \<Rightarrow> (Inl ''no response'', []) | r # rest \<Rightarrow> (r, rest))"

definition start_world :: "'p \<Rightarrow> 'p world" where
  "start_world p = \<lparr>provider = p, calls = [], ticks = 0\<rparr>"

definition timed :: "string \<Rightarrow> string \<Rightarrow> string \<Rightarrow> string option \<Rightarrow> event" where
  "timed i s e tag =
     \<lparr>event_id = i, summary = ''Meeting'',
      ev_start = Some \<lparr>dateTime = Some s, timeZone = None\<rparr>,
      ev_end = Some \<lparr>dateTime = Some e, timeZone = None\<rparr>,
      transparency = ''opaque'', visibility = ''default'', description = [],
      syncedEvent = tag, syncTime = None\<rparr>"

section \<open>Requests issued by a run, and the listings it reads\<close>

definition new_calls :: "'p world \<Rightarrow> 'p world \<Rightarrow> request list" where
  "new_calls w w' = drop (length (calls w)) (calls w')"

text \<open>From \<open>w\<close> to \<open>w'\<close> the log of requests only grew, and each request added
  satisfies \<open>P\<close>.\<close>

definition only_issues :: "(request \<Rightarrow> bool) \<Rightarrow> 'p world \<Rightarrow> 'p world \<Rightarrow> bool" where
  "only_issues P w w' =
     (take (length (calls w)) (calls w') = calls w \<and> list_all P (new_calls w w'))"

text \<open>The listing of the target calendar that a sync run reads (empty when the run does
  not get one), and the one that cleanup reads.\<close>

definition sync_listing :: "'p env \<Rightarrow> 'p world \<Rightarrow> event list" where
  "sync_listing env w =
     (case getSettings env of
        Inr (Some st) \<Rightarrow>
          (case sync_window env st w of
             ((startTime, endTime), w2) \<Rightarrow>
               (case fetchEvents_of_Dates env (trim (targetCalendar st)) startTime endTime
                       no_options w2 of
                  (Inr evs, w3) \<Rightarrow> evs
                | (Inl e, w3) \<Rightarrow> []))
      | _ \<Rightarrow> [])"

definition cleanup_listing :: "'p env \<Rightarrow> 'p world \<Rightarrow> event list" where
  "cleanup_listing env w =
     (case getSettings env of
        Inr (Some st) \<Rightarrow>
          (case getDateRange env (if weeksAhead st = 0 then 1 else weeksAhead st) w of
             (dr, w1) \<Rightarrow>
               (case fetchEvents_of_Dates env (targetCalendar st) (cleanupStart dr) (endDate dr)
                       \<lparr>opt_maxResults = None, opt_pageToken = None\<rparr> w1 of
                  (Inr evs, w2) \<Rightarrow> evs
                | (Inl e, w2) \<Rightarrow> []))
      | _ \<Rightarrow> [])"


fun is_DELETE :: "request \<Rightarrow> bool" where
  "is_DELETE (DELETE_event c i) = True"
| "is_DELETE (GET_events c p) = False"
| "is_DELETE (POST_event c body) = False"


fun is_POST :: "request \<Rightarrow> bool" where
  "is_POST (POST_event c body) = True"
| "is_POST (GET_events c p) = False"
| "is_POST (DELETE_event c i) = False"

fun spares :: "string \<Rightarrow> request \<Rightarrow> bool" where
  "spares i (DELETE_event c j) = (j \<noteq> i)"
| "spares i (GET_events c p) = True"
| "spares i (POST_event c body) = True"

text \<open>The slot of an event: its start and end timestamps as written.\<close>

definition slot :: "event \<Rightarrow> string \<times> string" where
  "slot e = (the_dateTime (ev_start e), the_dateTime (ev_end e))"

text \<open>The two tests that the loop over the source events makes before it computes a key,
  taken together, and the key it computes.\<close>

definition eligible :: "'p env \<Rightarrow> event \<Rightarrow> bool" where
  "eligible env ev =
     (\<not> no_dateTime (ev_start ev) \<and> \<not> no_dateTime (ev_end ev)
      \<and> \<not> dates_differ (LocalTZA env) (Date_parse_other env)
            (the_dateTime (ev_start ev)) (the_dateTime (ev_end ev)))"

definition slot_key :: "event \<Rightarrow> string" where
  "slot_key ev = the_dateTime (ev_start ev) @ ''_'' @ the_dateTime (ev_end ev)"

text \<open>The day of the month, and the day since the epoch, on which a timestamp falls in
  the local time of a zone with the constant offset \<open>tza\<close>.\<close>

definition local_date :: "int \<Rightarrow> string \<Rightarrow> int option" where
  "local_date tza s =
     map_option (getDate (fixed_zone tza)) (Date_parse (fixed_zone tza) no_other s)"

definition local_day :: "int \<Rightarrow> string \<Rightarrow> int option" where
  "local_day tza s =
     map_option (\<lambda>t. Day (LocalTime (fixed_zone tza) t)) (Date_parse (fixed_zone tza) no_other s)"

text \<open>The answers of the provider to a list of requests sent one after the other from
  the state \<open>p\<close>, the state after them, and whether an answer is a success.\<close>

fun replies :: "'p env \<Rightarrow> request list \<Rightarrow> 'p \<Rightarrow> (string + response) list" where
  "replies env [] p = []"
| "replies env (rq # rqs) p = (case request env rq p of (a, p') \<Rightarrow> a # replies env rqs p')"

fun served :: "'p env \<Rightarrow> request list \<Rightarrow> 'p \<Rightarrow> 'p" where
  "served env [] p = p"
| "served env (rq # rqs) p = (case request env rq p of (a, p') \<Rightarrow> served env rqs p')"

definition answer_ok :: "string + response \<Rightarrow> bool" where
  "answer_ok a = (case a of Inl msg \<Rightarrow> False | Inr r \<Rightarrow> ok r)"

text \<open>The deletes that the map and the keep set call for, in the order of the map; and,
  of a list of requests, those up to and including the first that the provider does not
  answer with a success.\<close>

definition obsolete :: "string \<Rightarrow> (string \<times> event) list \<Rightarrow> string list \<Rightarrow> request list" where
  "obsolete c m keep =
     map (\<lambda>kv. DELETE_event c (event_id (snd kv))) (filter (\<lambda>kv. \<not> Set_has keep (fst kv)) m)"

definition sent :: "'p env \<Rightarrow> request list \<Rightarrow> 'p \<Rightarrow> request list" where
  "sent env rqs p = take (Suc (length (takeWhile answer_ok (replies env rqs p)))) rqs"

section \<open>Concrete runs\<close>

text \<open>The runs below take place at 2024-06-15T12:00:00Z, in a zone at UTC, against a
  target calendar \<open>t\<close> and source calendars \<open>a\<close> and \<open>b\<close>, unless said otherwise.\<close>

definition noon :: int where
  "noon = 1718452800000"

definition stored :: "string \<Rightarrow> string list \<Rightarrow> int \<Rightarrow> string + settings option" where
  "stored target sources weeks =
     Inr (Some \<lparr>targetCalendar = target, sourceCalendars = sources, weeksAhead = weeks\<rparr>)"

definition gcal_env :: "string list \<Rightarrow> gcal env" where
  "gcal_env sources =
     \<lparr>request = gcal_request, getSettings = stored ''t'' sources 1,
      clock = (\<lambda>n. noon), LocalTZA = fixed_zone 0, Date_parse_other = no_other\<rparr>"

definition scripted_env :: "string list \<Rightarrow> (string + response) list env" where
  "scripted_env sources =
     \<lparr>request = scripted_request, getSettings = stored ''t'' sources 1,
      clock = (\<lambda>n. noon), LocalTZA = fixed_zone 0, Date_parse_other = no_other\<rparr>"

definition store :: "(string \<times> event list) list \<Rightarrow> nat \<Rightarrow> gcal world" where
  "store cs cap = start_world \<lparr>calendars = cs, issued = 0, pageCap = cap\<rparr>"

definition target_events :: "gcal world \<Rightarrow> event list" where
  "target_events w = (case map_of (calendars (provider w)) ''t'' of None \<Rightarrow> [] | Some evs \<Rightarrow> evs)"

text \<open>Two sources with one meeting each, at the same time; the target is empty.\<close>

definition same_slot_store :: "gcal world" where
  "same_slot_store =
     store [(''t'', []),
            (''a'', [timed ''a1'' ''2024-06-17T10:00:00Z'' ''2024-06-17T11:00:00Z'' None]),
            (''b'', [timed ''b1'' ''2024-06-17T10:00:00Z'' ''2024-06-17T11:00:00Z'' None])] 100"

text \<open>A source with one event that lasts a month, from the first of June to the first of
  July.\<close>

definition month_long_store :: "gcal world" where
  "month_long_store =
     store [(''t'', []),
            (''a'', [timed ''m1'' ''2024-06-01T10:00:00Z'' ''2024-07-01T11:00:00Z'' None])] 100"

text \<open>A target with two tagged events, listed one to a page.\<close>

definition busy1 :: event where
  "busy1 = timed ''s1'' ''2024-06-17T09:00:00Z'' ''2024-06-17T09:30:00Z'' (Some ''true'')"

definition busy2 :: event where
  "busy2 = timed ''s2'' ''2024-06-18T09:00:00Z'' ''2024-06-18T09:30:00Z'' (Some ''true'')"

definition paged_store :: "gcal world" where
  "paged_store = store [(''t'', [busy1, busy2]), (''a'', [])] 1"

text \<open>A target that holds two tagged events for one slot, which no source occupies.\<close>

definition stale_pair_store :: "gcal world" where
  "stale_pair_store =
     store [(''t'', [timed ''evt0'' ''2024-06-17T10:00:00Z'' ''2024-06-17T11:00:00Z'' (Some ''true''),
                     timed ''evt1'' ''2024-06-17T10:00:00Z'' ''2024-06-17T11:00:00Z'' (Some ''true'')]),
            (''a'', [])] 100"

text \<open>A target with a stale tagged event and a meeting of the user's own; the source has
  a new meeting.\<close>

definition mixed_store :: "gcal world" where
  "mixed_store =
     store [(''t'', [busy1, timed ''u1'' ''2024-06-17T13:00:00Z'' ''2024-06-17T14:00:00Z'' None]),
            (''a'', [timed ''a1'' ''2024-06-17T14:00:00Z'' ''2024-06-17T14:30:00Z'' None])] 100"

text \<open>A provider that lists a stale tagged event in the target, lists an empty source,
  and answers the delete with 404.\<close>

definition gone_script :: "(string + response) list world" where
  "gone_script =
     start_world
       [Inr \<lparr>status = 200, items = Some [busy1], nextPageToken = None\<rparr>,
        Inr \<lparr>status = 200, items = Some [], nextPageToken = None\<rparr>,
        Inr not_found]"

definition second_run :: "'p env \<Rightarrow> sync_state \<Rightarrow> 'p world \<Rightarrow> (error + unit) \<times> sync_state \<times> 'p world" where
  "second_run env s w = (case performSync env s w of (r, s', w') \<Rightarrow> performSync env s' w')"

text \<open>A provider that lists three stale tagged events in the target, lists an empty
  source, answers the first delete with 204 and the second with 404.\<close>

definition busy3 :: event where
  "busy3 = timed ''s3'' ''2024-06-19T09:00:00Z'' ''2024-06-19T09:30:00Z'' (Some ''true'')"

definition deleted :: response where
  "deleted = \<lparr>status = 204, items = None, nextPageToken = None\<rparr>"

definition gone_later_script :: "(string + response) list world" where
  "gone_later_script =
     start_world
       [Inr \<lparr>status = 200, items = Some [busy1, busy2, busy3], nextPageToken = None\<rparr>,
        Inr \<lparr>status = 200, items = Some [], nextPageToken = None\<rparr>,
        Inr deleted,
        Inr not_found]"




section \<open>Properties of the calendar arithmetic\<close>

text \<open>\<open>YearFromDay\<close> computes what the language defines: the largest year whose first
  day is not after the given day.\<close>

lemma div_bounds: "0 < (c::int) \<Longrightarrow> c * (a div c) \<le> a \<and> a < c * (a div c) + c"
  using mult_div_mod_eq [of c a] pos_mod_bound [of c a] pos_mod_sign [of c a] by linarith

lemma DayFromYear_upper: "400 * DayFromYear y \<le> 146097 * y - 287810501"
proof -
  define A where "A = (y - 1969) div 4"
  define B where "B = (y - 1901) div 100"
  define C where "C = (y - 1601) div 400"
  have "4 * A \<le> y - 1969" "y - 1901 < 100 * B + 100" "400 * C \<le> y - 1601"
    using div_bounds [of 4 "y - 1969"] div_bounds [of 100 "y - 1901"] div_bounds [of 400 "y - 1601"]
    by (simp_all add: A_def B_def C_def)
  moreover have "DayFromYear y = 365 * y - 719050 + A - B + C"
    by (simp add: DayFromYear_def A_def B_def C_def)
  ultimately show ?thesis by linarith
qed

lemma DayFromYear_lower: "146097 * y - 287811596 \<le> 400 * DayFromYear y"
proof -
  define A where "A = (y - 1969) div 4"
  define B where "B = (y - 1901) div 100"
  define C where "C = (y - 1601) div 400"
  have "y - 1969 < 4 * A + 4" "100 * B \<le> y - 1901" "y - 1601 < 400 * C + 400"
    using div_bounds [of 4 "y - 1969"] div_bounds [of 100 "y - 1901"] div_bounds [of 400 "y - 1601"]
    by (simp_all add: A_def B_def C_def)
  moreover have "DayFromYear y = 365 * y - 719050 + A - B + C"
    by (simp add: DayFromYear_def A_def B_def C_def)
  ultimately show ?thesis by linarith
qed

lemma YearFromDay_bounds:
  "DayFromYear (YearFromDay d) \<le> d \<and> d < DayFromYear (YearFromDay d + 1)"
proof -
  define q where "q = (400 * d) div 146097"
  have q: "146097 * q \<le> 400 * d" "400 * d < 146097 * q + 146097"
    using div_bounds [of 146097 "400 * d"] by (simp_all add: q_def)
  have "146097 * (1969 + q) = 146097 * q + 287664993"
    by (simp add: distrib_left)
  then have lo: "DayFromYear (1969 + q) \<le> d"
    using DayFromYear_upper [of "1969 + q"] q by linarith
  have "146097 * (1972 + q) = 146097 * q + 288103284"
    by (simp add: distrib_left)
  then have hi: "d < DayFromYear (1972 + q)"
    using DayFromYear_lower [of "1972 + q"] q by linarith
  have eqs: "1970 + q - 1 = 1969 + q" "1970 + q + 1 + 1 = 1972 + q" by simp_all
  show ?thesis
    using lo hi unfolding YearFromDay_def Let_def q_def [symmetric]
    by (auto simp: eqs)
qed

lemma DayFromYear_step: "DayFromYear y < DayFromYear (y + 1)"
proof -
  define A where "A = (y - 1969) div 4"
  define B where "B = (y - 1901) div 100"
  define C where "C = (y - 1601) div 400"
  define A' where "A' = (y - 1968) div 4"
  define B' where "B' = (y - 1900) div 100"
  define C' where "C' = (y - 1600) div 400"
  have "4 * A \<le> y - 1969" "y - 1968 < 4 * A' + 4"
       "y - 1901 < 100 * B + 100" "100 * B' \<le> y - 1900"
       "400 * C \<le> y - 1601" "y - 1600 < 400 * C' + 400"
    using div_bounds [of 4 "y - 1969"] div_bounds [of 4 "y - 1968"]
          div_bounds [of 100 "y - 1901"] div_bounds [of 100 "y - 1900"]
          div_bounds [of 400 "y - 1601"] div_bounds [of 400 "y - 1600"]
    by (simp_all add: A_def B_def C_def A'_def B'_def C'_def)
  moreover have "DayFromYear y = 365 * y - 719050 + A - B + C"
    by (simp add: DayFromYear_def A_def B_def C_def)
  moreover have "DayFromYear (y + 1) = 365 * y - 718685 + A' - B' + C'"
    by (simp add: DayFromYear_def A'_def B'_def C'_def)
  ultimately show ?thesis by linarith
qed

lemma DayFromYear_mono: "y \<le> y' \<Longrightarrow> DayFromYear y \<le> DayFromYear y'"
proof (induction y' rule: int_ge_induct)
  case base
  show ?case by simp
next
  case (step i)
  with DayFromYear_step [of i] show ?case by linarith
qed

lemma YearFromDay_largest: "(DayFromYear y \<le> d) = (y \<le> YearFromDay d)"
proof
  assume "y \<le> YearFromDay d"
  then have "DayFromYear y \<le> DayFromYear (YearFromDay d)" by (rule DayFromYear_mono)
  with YearFromDay_bounds [of d] show "DayFromYear y \<le> d" by linarith
next
  assume h: "DayFromYear y \<le> d"
  show "y \<le> YearFromDay d"
  proof (rule ccontr)
    assume "\<not> y \<le> YearFromDay d"
    then have "YearFromDay d + 1 \<le> y" by simp
    then have "DayFromYear (YearFromDay d + 1) \<le> DayFromYear y" by (rule DayFromYear_mono)
    with YearFromDay_bounds [of d] h show False by linarith
  qed
qed






subsection \<open>The log of requests\<close>

text \<open>Each service function only appends to the log, and what it appends is known.\<close>

lemma only_issuesI:
  "calls w' = calls w @ new \<Longrightarrow> list_all P new \<Longrightarrow> only_issues P w w'"
  by (simp add: only_issues_def new_calls_def)

lemma only_issuesD:
  "only_issues P w w' \<Longrightarrow> calls w' = calls w @ new_calls w w' \<and> list_all P (new_calls w w')"
  unfolding only_issues_def new_calls_def
  by (metis append_take_drop_id)

lemma only_issues_refl: "calls w' = calls w \<Longrightarrow> only_issues P w w'"
  by (simp add: only_issues_def new_calls_def)

lemma only_issues_trans:
  assumes "only_issues P w w1" and "only_issues P w1 w2"
  shows "only_issues P w w2"
proof -
  from assms have a: "calls w1 = calls w @ new_calls w w1" "list_all P (new_calls w w1)"
    and b: "calls w2 = calls w1 @ new_calls w1 w2" "list_all P (new_calls w1 w2)"
    by (auto dest: only_issuesD)
  have "calls w2 = calls w @ (new_calls w w1 @ new_calls w1 w2)"
    using a(1) b(1) by simp
  moreover have "list_all P (new_calls w w1 @ new_calls w1 w2)"
    using a(2) b(2) by simp
  ultimately show ?thesis by (rule only_issuesI)
qed

lemma only_issues_mono:
  "only_issues P w w' \<Longrightarrow> (\<And>rq. P rq \<Longrightarrow> Q rq) \<Longrightarrow> only_issues Q w w'"
  by (auto simp: only_issues_def list_all_iff)

lemma new_Date_calls: "new_Date env w = (now, w') \<Longrightarrow> calls w' = calls w"
  by (auto simp: new_Date_def)

lemma request_issues:
  "makeAuthenticatedRequest env rq w = (r, w') \<Longrightarrow> calls w' = calls w @ [rq]"
  by (auto simp: makeAuthenticatedRequest_def split: prod.splits)

lemma fetchEvents_issues:
  assumes "fetchEvents env c a b opts w = (r, w')"
    and "P (GET_events c (query_params a b opts))"
  shows "only_issues P w w'"
proof (cases "c = []")
  case True
  with assms show ?thesis by (simp add: fetchEvents_def only_issues_refl)
next
  case False
  obtain r0 w0 where rq: "makeAuthenticatedRequest env (GET_events c (query_params a b opts)) w = (r0, w0)"
    by (cases "makeAuthenticatedRequest env (GET_events c (query_params a b opts)) w")
  with False assms(1) have "w' = w0"
    by (auto simp: fetchEvents_def split: sum.splits if_splits)
  with request_issues [OF rq] assms(2) show ?thesis
    by (auto intro: only_issuesI)
qed

lemma fetchEvents_of_Dates_valid:
  "fetchEvents_of_Dates env c (Some a) (Some b) opts w = fetchEvents env c a b opts w"
  by (simp add: fetchEvents_of_Dates_def fetchEvents_def)

lemma fetchEvents_of_Dates_invalid:
  "d1 = None \<or> d2 = None \<Longrightarrow> calls (snd (fetchEvents_of_Dates env c d1 d2 opts w)) = calls w"
  by (auto simp: fetchEvents_of_Dates_def split: option.splits)

lemma fetchEvents_of_Dates_issues:
  assumes "fetchEvents_of_Dates env c d1 d2 opts w = (r, w')"
    and "\<And>a b. d1 = Some a \<Longrightarrow> d2 = Some b \<Longrightarrow> P (GET_events c (query_params a b opts))"
  shows "only_issues P w w'"
proof (cases d1)
  case None
  with assms(1) show ?thesis
    by (auto simp: fetchEvents_of_Dates_def only_issues_refl split: if_splits)
next
  case a: (Some a)
  show ?thesis
  proof (cases d2)
    case None
    with assms(1) a show ?thesis
      by (auto simp: fetchEvents_of_Dates_def only_issues_refl split: if_splits)
  next
    case (Some b)
    with assms(1) a have "fetchEvents env c a b opts w = (r, w')"
      by (simp add: fetchEvents_of_Dates_valid)
    then show ?thesis using assms(2) [OF a Some] by (rule fetchEvents_issues)
  qed
qed

lemma createBusyEvent_issues:
  assumes "createBusyEvent env c ev w = (r, w')"
    and "\<And>body. P (POST_event c body)"
  shows "only_issues P w w'"
proof -
  obtain now w0 where nd: "new_Date env w = (now, w0)" by (cases "new_Date env w")
  obtain r1 w1 where rq: "makeAuthenticatedRequest env (POST_event c (busyEvent ev now)) w0 = (r1, w1)"
    by (cases "makeAuthenticatedRequest env (POST_event c (busyEvent ev now)) w0")
  from assms(1) nd rq have "w' = w \<or> w' = w1"
    by (auto simp: createBusyEvent_def split: if_splits sum.splits)
  moreover have "calls w1 = calls w @ [POST_event c (busyEvent ev now)]"
    using request_issues [OF rq] new_Date_calls [OF nd] by simp
  ultimately show ?thesis
    using assms(2) by (auto intro: only_issuesI only_issues_refl)
qed

lemma deleteEvent_issues:
  assumes "deleteEvent env c i w = (r, w')" and "P (DELETE_event c i)"
  shows "only_issues P w w'"
proof -
  obtain r0 w0 where rq: "makeAuthenticatedRequest env (DELETE_event c i) w = (r0, w0)"
    by (cases "makeAuthenticatedRequest env (DELETE_event c i) w")
  with assms(1) have "w' = w0"
    by (auto simp: deleteEvent_def split: sum.splits if_splits)
  with request_issues [OF rq] assms(2) show ?thesis
    by (auto intro: only_issuesI)
qed

lemma sync_events_issues:
  assumes "\<And>body. P (POST_event c body)"
  shows "sync_events env c m evs keep w = (r, w') \<Longrightarrow> only_issues P w w'"
proof (induction evs arbitrary: keep w)
  case Nil
  then show ?case by (simp add: only_issues_refl)
next
  case (Cons ev evs)
  show ?case
  proof (cases "no_dateTime (ev_start ev) \<or> no_dateTime (ev_end ev)
                \<or> dates_differ (LocalTZA env) (Date_parse_other env)
                     (the_dateTime (ev_start ev)) (the_dateTime (ev_end ev))")
    case True
    with Cons.prems have "sync_events env c m evs keep w = (r, w')"
      by (auto split: if_splits)
    then show ?thesis by (rule Cons.IH)
  next
    case False
    define k where "k = the_dateTime (ev_start ev) @ ''_'' @ the_dateTime (ev_end ev)"
    have key: "createEventKey (Some \<lparr>dateTime = Some (the_dateTime (ev_start ev)), timeZone = None\<rparr>)
                 (Some \<lparr>dateTime = Some (the_dateTime (ev_end ev)), timeZone = None\<rparr>) = Inr k"
      by (simp add: createEventKey_def interpolate_def k_def)
    obtain r1 w1 where step: "(if \<not> Map_has m k then createBusyEvent env c ev w else (Inr None, w)) = (r1, w1)"
      by (cases "if \<not> Map_has m k then createBusyEvent env c ev w else (Inr None, w)")
    have first: "only_issues P w w1"
      using step assms by (auto split: if_splits intro: createBusyEvent_issues only_issues_refl)
    show ?thesis
    proof (cases r1)
      case (Inl e)
      with Cons.prems False key step have "w' = w1" by simp
      with first show ?thesis by simp
    next
      case (Inr created)
      with Cons.prems False key step
      have "sync_events env c m evs (Set_add keep k) w1 = (r, w')" by simp
      then have "only_issues P w1 w'" by (rule Cons.IH)
      with first show ?thesis by (rule only_issues_trans)
    qed
  qed
qed

lemma sync_sources_issues:
  assumes "\<And>body. P (POST_event c body)"
    and "\<And>src a b. d1 = Some a \<Longrightarrow> d2 = Some b \<Longrightarrow> P (GET_events src (query_params a b no_options))"
  shows "sync_sources env c d1 d2 m srcs keep w = (r, w') \<Longrightarrow> only_issues P w w'"
proof (induction srcs arbitrary: keep w)
  case Nil
  then show ?case by (simp add: only_issues_refl)
next
  case (Cons src srcs)
  obtain r1 w1 where f: "fetchEvents_of_Dates env src d1 d2 no_options w = (r1, w1)"
    by (cases "fetchEvents_of_Dates env src d1 d2 no_options w")
  have first: "only_issues P w w1"
    using f assms(2) by (rule fetchEvents_of_Dates_issues)
  show ?case
  proof (cases r1)
    case (Inl e)
    with Cons.prems f have "w' = w1" by simp
    with first show ?thesis by simp
  next
    case (Inr events)
    obtain r2 w2 where g: "sync_events env c m events keep w1 = (r2, w2)"
      by (cases "sync_events env c m events keep w1")
    have "only_issues P w1 w2"
      by (rule sync_events_issues [OF _ g]) (rule assms(1))
    with first have second: "only_issues P w w2" by (rule only_issues_trans)
    show ?thesis
    proof (cases r2)
      case (Inl e)
      with Cons.prems f g Inr have "w' = w2" by simp
      with second show ?thesis by simp
    next
      case (Inr keep')
      with Cons.prems f g \<open>r1 = Inr events\<close>
      have "sync_sources env c d1 d2 m srcs keep' w2 = (r, w')" by simp
      then have "only_issues P w2 w'" by (rule Cons.IH)
      with second show ?thesis by (rule only_issues_trans)
    qed
  qed
qed

lemma delete_obsolete_issues:
  "delete_obsolete env c m keep w = (r, w') \<Longrightarrow>
   (\<And>e. e \<in> snd ` set m \<Longrightarrow> P (DELETE_event c (event_id e))) \<Longrightarrow> only_issues P w w'"
proof (induction m arbitrary: w)
  case Nil
  then show ?case by (simp add: only_issues_refl)
next
  case (Cons kv m)
  obtain k ev where kv: "kv = (k, ev)" by (cases kv)
  have rest: "\<And>e. e \<in> snd ` set m \<Longrightarrow> P (DELETE_event c (event_id e))"
    using Cons.prems(2) by auto
  show ?case
  proof (cases "Set_has keep k")
    case True
    with Cons.prems(1) kv have "delete_obsolete env c m keep w = (r, w')" by simp
    then show ?thesis using rest by (rule Cons.IH)
  next
    case False
    obtain r1 w1 where d: "deleteEvent env c (event_id ev) w = (r1, w1)"
      by (cases "deleteEvent env c (event_id ev) w")
    have "P (DELETE_event c (event_id ev))" using Cons.prems(2) kv by force
    with d have first: "only_issues P w w1" by (rule deleteEvent_issues)
    show ?thesis
    proof (cases r1)
      case (Inl e)
      with Cons.prems(1) kv False d have "w' = w1" by simp
      with first show ?thesis by simp
    next
      case (Inr u)
      with Cons.prems(1) kv False d have "delete_obsolete env c m keep w1 = (r, w')" by simp
      then have "only_issues P w1 w'" using rest by (rule Cons.IH)
      with first show ?thesis by (rule only_issues_trans)
    qed
  qed
qed

lemma delete_all_issues:
  "delete_all env c evs w = (r, w') \<Longrightarrow>
   (\<And>e. e \<in> set evs \<Longrightarrow> P (DELETE_event c (event_id e))) \<Longrightarrow> only_issues P w w'"
proof (induction evs arbitrary: w)
  case Nil
  then show ?case by (simp add: only_issues_refl)
next
  case (Cons ev evs)
  obtain r1 w1 where d: "deleteEvent env c (event_id ev) w = (r1, w1)"
    by (cases "deleteEvent env c (event_id ev) w")
  have "P (DELETE_event c (event_id ev))" using Cons.prems(2) by simp
  with d have first: "only_issues P w w1" by (rule deleteEvent_issues)
  show ?case
  proof (cases r1)
    case (Inl e)
    with Cons.prems(1) d have "w' = w1" by simp
    with first show ?thesis by simp
  next
    case (Inr u)
    with Cons.prems(1) d have "delete_all env c evs w1 = (r, w')" by simp
    then have "only_issues P w1 w'" using Cons.prems(2) by (intro Cons.IH) auto
    with first show ?thesis by (rule only_issues_trans)
  qed
qed

lemma Map_set_values: "snd ` set (Map_set m k v) \<subseteq> insert v (snd ` set m)"
  by (induction m k v rule: Map_set.induct) auto

lemma foldl_Map_set_values:
  "snd ` set (foldl (\<lambda>m (k, v). Map_set m k v) m es) \<subseteq> snd ` set m \<union> snd ` set es"
proof (induction es arbitrary: m)
  case Nil
  then show ?case by simp
next
  case (Cons kv es)
  obtain k v where kv: "kv = (k, v)" by (cases kv)
  have "snd ` set (foldl (\<lambda>m (k, v). Map_set m k v) (Map_set m k v) es)
          \<subseteq> snd ` set (Map_set m k v) \<union> snd ` set es"
    by (rule Cons.IH)
  with Map_set_values [of m k v]
  have "snd ` set (foldl (\<lambda>m (k, v). Map_set m k v) (Map_set m k v) es)
          \<subseteq> insert v (snd ` set m \<union> snd ` set es)"
    by blast
  with kv show ?case by simp
qed

lemma new_Map_values: "snd ` set (new_Map es) \<subseteq> snd ` set es"
  using foldl_Map_set_values [of "[]" es] by (simp add: new_Map_def)

lemma key_entries_values: "key_entries evs = Inr es \<Longrightarrow> map snd es = evs"
  by (induction evs arbitrary: es) (auto split: sum.splits)

lemma reconcile_issues:
  assumes run: "reconcile env st w = (r, w')"
    and win: "sync_window env st w = ((d1, d2), w2)"
    and get: "\<And>c a b. d1 = Some a \<Longrightarrow> d2 = Some b \<Longrightarrow> P (GET_events c (query_params a b no_options))"
    and post: "\<And>c body. P (POST_event c body)"
    and del: "\<And>evs w3 e. fetchEvents_of_Dates env (trim (targetCalendar st)) d1 d2 no_options w2
                              = (Inr evs, w3)
                \<Longrightarrow> e \<in> set evs \<Longrightarrow> tagged e
                \<Longrightarrow> P (DELETE_event (trim (targetCalendar st)) (event_id e))"
  shows "only_issues P w w'"
proof -
  define t where "t = trim (targetCalendar st)"
  have w2: "calls w2 = calls w"
    using win by (auto simp: sync_window_def new_Date_def Let_def split: prod.splits)
  obtain r3 w3 where f: "fetchEvents_of_Dates env t d1 d2 no_options w2 = (r3, w3)"
    by (cases "fetchEvents_of_Dates env t d1 d2 no_options w2")
  have "only_issues P w2 w3" using f get by (rule fetchEvents_of_Dates_issues)
  then have first: "only_issues P w w3" by (simp add: only_issues_def new_calls_def w2)
  show ?thesis
  proof (cases r3)
    case (Inl e)
    with run win f have "w' = w3" by (simp add: reconcile_def t_def)
    with first show ?thesis by simp
  next
    case (Inr existing)
    show ?thesis
    proof (cases "key_entries (filter tagged existing)")
      case (Inl e)
      with run win f Inr have "w' = w3" by (simp add: reconcile_def t_def)
      with first show ?thesis by simp
    next
      case entries: (Inr entries)
      obtain r4 w4 where g: "sync_sources env t d1 d2 (new_Map entries) (map trim (sourceCalendars st)) [] w3 = (r4, w4)"
        by (cases "sync_sources env t d1 d2 (new_Map entries) (map trim (sourceCalendars st)) [] w3")
      have "only_issues P w3 w4"
        by (rule sync_sources_issues [OF _ _ g]) (rule post, rule get)
      with first have second: "only_issues P w w4" by (rule only_issues_trans)
      show ?thesis
      proof (cases r4)
        case (Inl e)
        with run win f Inr entries g have "w' = w4" by (simp add: reconcile_def t_def Let_def)
        with second show ?thesis by simp
      next
        case keep: (Inr keep)
        with run win f Inr entries g
        have d: "delete_obsolete env t (new_Map entries) keep w4 = (r, w')"
          by (simp add: reconcile_def t_def Let_def)
        have "snd ` set (new_Map entries) \<subseteq> set (filter tagged existing)"
          using new_Map_values [of entries] key_entries_values [OF entries]
          by (metis set_map)
        then have "\<And>e. e \<in> snd ` set (new_Map entries)
                     \<Longrightarrow> P (DELETE_event t (event_id e))"
          using del [OF f [unfolded t_def Inr]] by (auto simp: t_def)
        with d have "only_issues P w4 w'" by (rule delete_obsolete_issues)
        with second show ?thesis by (rule only_issues_trans)
      qed
    qed
  qed
qed

lemma performSync_world:
  "snd (snd (performSync env s w)) =
     (if syncInProgress s then w else snd (performSync_try env w))"
  by (simp add: performSync_def performSync_enter_def performSync_resume_def
           split: prod.splits sum.splits)

lemma performSync_try_issues:
  assumes get: "\<And>st c a b. getSettings env = Inr (Some st) \<Longrightarrow>
                  fst (sync_window env st w) = (Some a, Some b) \<Longrightarrow>
                  P (GET_events c (query_params a b no_options))"
    and post: "\<And>c body. P (POST_event c body)"
    and del: "\<And>e. e \<in> set (sync_listing env w) \<Longrightarrow> tagged e \<Longrightarrow>
                (\<And>c. P (DELETE_event c (event_id e)))"
  shows "only_issues P w (snd (performSync_try env w))"
proof (cases "getSettings env")
  case (Inl msg)
  then show ?thesis by (simp add: performSync_try_def only_issues_refl)
next
  case (Inr so)
  show ?thesis
  proof (cases so)
    case None
    with Inr show ?thesis by (simp add: performSync_try_def only_issues_refl)
  next
    case (Some st)
    note st = Inr [unfolded Some]
    obtain d1 d2 w2 where win: "sync_window env st w = ((d1, d2), w2)"
      by (cases "sync_window env st w") auto
    obtain r w' where run: "reconcile env st w = (r, w')"
      by (cases "reconcile env st w")
    have "only_issues P w w'"
    proof (rule reconcile_issues [OF run win])
      show "P (GET_events c (query_params a b no_options))"
        if "d1 = Some a" and "d2 = Some b" for c a b
        using get [OF st, of a b c] win that by simp
      show "P (POST_event c body)" for c body by (rule post)
      show "P (DELETE_event (trim (targetCalendar st)) (event_id e))"
        if "fetchEvents_of_Dates env (trim (targetCalendar st)) d1 d2 no_options w2 = (Inr evs, w3)"
          and "e \<in> set evs" and "tagged e" for evs w3 e
      proof -
        have "sync_listing env w = evs"
          using st win that(1) by (simp add: sync_listing_def)
        with that(2,3) show ?thesis by (auto intro: del)
      qed
    qed
    moreover have "calls (snd (performSync_try env w)) = calls w \<or> calls (snd (performSync_try env w)) = calls w'"
      using st run by (auto simp: performSync_try_def new_Date_def split: sum.splits)
    ultimately show ?thesis
      by (auto simp: only_issues_def new_calls_def)
  qed
qed

lemma cleanup_pages_once:
  "cleanup_pages env c a b tok acc w =
     (case fetchEvents env c a b \<lparr>opt_maxResults = None, opt_pageToken = tok\<rparr> w of
        (Inl e, w') \<Rightarrow> (Inl e, w')
      | (Inr data, w') \<Rightarrow> (Inr (acc @ data), w'))"
  by (simp add: array_nextPageToken_def split: prod.splits sum.splits)

lemma cleanupSyncedEvents_issues:
  assumes run: "cleanupSyncedEvents env c a b w = (r, w')"
    and get: "P (GET_events c (query_params a b \<lparr>opt_maxResults = None, opt_pageToken = None\<rparr>))"
    and del: "\<And>evs w1 e. fetchEvents env c a b \<lparr>opt_maxResults = None, opt_pageToken = None\<rparr> w = (Inr evs, w1)
                \<Longrightarrow> e \<in> set evs \<Longrightarrow> tagged e \<Longrightarrow> P (DELETE_event c (event_id e))"
  shows "only_issues P w w'"
proof -
  obtain r1 w1 where f: "fetchEvents env c a b \<lparr>opt_maxResults = None, opt_pageToken = None\<rparr> w = (r1, w1)"
    by (cases "fetchEvents env c a b \<lparr>opt_maxResults = None, opt_pageToken = None\<rparr> w")
  have first: "only_issues P w w1" using f get by (rule fetchEvents_issues)
  show ?thesis
  proof (cases r1)
    case (Inl e)
    with run f have "w' = w1"
      by (simp add: cleanupSyncedEvents_def cleanup_pages_once del: cleanup_pages.simps)
    with first show ?thesis by simp
  next
    case (Inr evs)
    obtain r2 w2 where d: "delete_all env c (filter tagged evs) w1 = (r2, w2)"
      by (cases "delete_all env c (filter tagged evs) w1")
    with run f Inr have "w' = w2"
      by (auto simp: cleanupSyncedEvents_def cleanup_pages_once Let_def
               simp del: cleanup_pages.simps split: sum.splits)
    moreover have "only_issues P w1 w2"
      using d del [OF f [unfolded Inr]] by (intro delete_all_issues) auto
    ultimately show ?thesis using first by (auto intro: only_issues_trans)
  qed
qed

lemma cleanupAll_issues:
  assumes get: "\<And>c p. P (GET_events c p)"
    and del: "\<And>e c. e \<in> set (cleanup_listing env w) \<Longrightarrow> tagged e \<Longrightarrow>
                P (DELETE_event c (event_id e))"
  shows "only_issues P w (snd (cleanupAll env w))"
proof (cases "getSettings env")
  case (Inl msg)
  then show ?thesis by (simp add: cleanupAll_def only_issues_refl)
next
  case (Inr so)
  show ?thesis
  proof (cases so)
    case None
    with Inr show ?thesis by (simp add: cleanupAll_def only_issues_refl)
  next
    case (Some st)
    note st = Inr [unfolded Some]
    show ?thesis
    proof (cases "targetCalendar st = []")
      case True
      with st show ?thesis by (simp add: cleanupAll_def only_issues_refl)
    next
      case False
      define weeks where "weeks = (if weeksAhead st = 0 then 1 else weeksAhead st)"
      obtain dr w1 where g: "getDateRange env weeks w = (dr, w1)"
        by (cases "getDateRange env weeks w")
      have w1: "calls w1 = calls w"
        using g by (auto simp: getDateRange_def new_Date_def Let_def)
      show ?thesis
      proof (cases "\<exists>a b. cleanupStart dr = Some a \<and> endDate dr = Some b")
        case no: False
        then have "snd (cleanupAll env w) = w1"
          using st \<open>targetCalendar st \<noteq> []\<close> g
          by (auto simp: cleanupAll_def weeks_def split: option.splits)
        then show ?thesis by (simp add: only_issues_refl w1)
      next
        case True
        then obtain a b where a: "cleanupStart dr = Some a" and b: "endDate dr = Some b" by blast
        obtain r w' where run: "cleanupSyncedEvents env (targetCalendar st) a b w1 = (r, w')"
          by (cases "cleanupSyncedEvents env (targetCalendar st) a b w1")
        have "only_issues P w1 w'"
        proof (rule cleanupSyncedEvents_issues [OF run])
          show "P (GET_events (targetCalendar st)
                   (query_params a b \<lparr>opt_maxResults = None, opt_pageToken = None\<rparr>))"
            by (rule get)
          show "P (DELETE_event (targetCalendar st) (event_id e))"
            if "fetchEvents env (targetCalendar st) a b
                  \<lparr>opt_maxResults = None, opt_pageToken = None\<rparr> w1 = (Inr evs, w2)"
              and "e \<in> set evs" and "tagged e" for evs w2 e
          proof -
            have "cleanup_listing env w = evs"
              using st g a b that(1)
              by (simp add: cleanup_listing_def weeks_def fetchEvents_of_Dates_valid)
            with that(2,3) show ?thesis by (auto intro: del)
          qed
        qed
        moreover have "snd (cleanupAll env w) = w'"
          using st False g a b run by (auto simp: cleanupAll_def weeks_def split: sum.splits)
        ultimately show ?thesis by (simp add: only_issues_def new_calls_def w1)
      qed
    qed
  qed
qed

lemma delete_obsolete_error:
  "delete_obsolete env c m keep w = (Inl e, w') \<Longrightarrow> e = DeleteFailed"
proof (induction m arbitrary: w)
  case Nil
  then show ?case by simp
next
  case (Cons kv m)
  obtain k ev where kv: "kv = (k, ev)" by (cases kv)
  obtain r1 w1 where d: "deleteEvent env c (event_id ev) w = (r1, w1)"
    by (cases "deleteEvent env c (event_id ev) w")
  have r1: "r1 = Inl DeleteFailed \<or> r1 = Inr ()"
    using d by (auto simp: deleteEvent_def split: prod.splits sum.splits if_splits)
  from Cons.prems kv d r1
  have "e = DeleteFailed \<or> delete_obsolete env c m keep w = (Inl e, w')
        \<or> delete_obsolete env c m keep w1 = (Inl e, w')"
    by (auto split: if_splits)
  with Cons.IH show ?case by blast
qed

subsection \<open>Events that are skipped, and what cleanup deletes\<close>

lemma event_without_times_is_skipped:
  assumes "no_dateTime (ev_start ev) \<or> no_dateTime (ev_end ev)"
  shows "createBusyEvent env c ev w = (Inr None, w)"
    and "sync_events env c m (ev # evs) keep w = sync_events env c m evs keep w"
  using assms by (auto simp: createBusyEvent_def)

lemma event_with_differing_dates_is_skipped:
  assumes "dates_differ (LocalTZA env) (Date_parse_other env)
             (the_dateTime (ev_start ev)) (the_dateTime (ev_end ev))"
  shows "createBusyEvent env c ev w = (Inr None, w)"
    and "sync_events env c m (ev # evs) keep w = sync_events env c m evs keep w"
  using assms by (auto simp: createBusyEvent_def)

lemma example_event_depends_on_the_local_zone:
  "dates_differ (fixed_zone (- 14400000)) no_other
     ''2024-06-01T23:00:00-04:00'' ''2024-06-02T01:00:00-04:00''
   \<and> \<not> dates_differ (fixed_zone 0) no_other
         ''2024-06-01T23:00:00-04:00'' ''2024-06-02T01:00:00-04:00''"
  by code_simp

lemma delete_all_requests:
  "delete_all env c evs w = (Inr u, w') \<Longrightarrow>
   calls w' = calls w @ map (\<lambda>e. DELETE_event c (event_id e)) evs"
proof (induction evs arbitrary: w)
  case Nil
  then show ?case by simp
next
  case (Cons ev evs)
  obtain r1 w1 where d: "deleteEvent env c (event_id ev) w = (r1, w1)"
    by (cases "deleteEvent env c (event_id ev) w")
  then have c1: "calls w1 = calls w @ [DELETE_event c (event_id ev)]"
    by (auto simp: deleteEvent_def makeAuthenticatedRequest_def split: prod.splits sum.splits if_splits)
  from Cons.prems d obtain u1 where "r1 = Inr u1" and "delete_all env c evs w1 = (Inr u, w')"
    by (cases r1) auto
  with Cons.IH [of w1] c1 show ?case by simp
qed

lemma cleanupSyncedEvents_deletes_the_tagged_events_of_its_listing:
  assumes "cleanupSyncedEvents env c a b w = (Inr n, w')"
  shows "\<exists>evs w1. fetchEvents env c a b \<lparr>opt_maxResults = None, opt_pageToken = None\<rparr> w = (Inr evs, w1)
           \<and> n = length (filter tagged evs)
           \<and> calls w' = calls w1 @ map (\<lambda>e. DELETE_event c (event_id e)) (filter tagged evs)"
proof -
  obtain r1 w1 where f: "fetchEvents env c a b \<lparr>opt_maxResults = None, opt_pageToken = None\<rparr> w = (r1, w1)"
    by (cases "fetchEvents env c a b \<lparr>opt_maxResults = None, opt_pageToken = None\<rparr> w")
  from assms f obtain evs where r1: "r1 = Inr evs"
    by (cases r1) (auto simp: cleanupSyncedEvents_def cleanup_pages_once simp del: cleanup_pages.simps)
  obtain r2 w2 where d: "delete_all env c (filter tagged evs) w1 = (r2, w2)"
    by (cases "delete_all env c (filter tagged evs) w1")
  from assms f r1 d have "r2 = Inr () \<and> w' = w2 \<and> n = length (filter tagged evs)"
    by (auto simp: cleanupSyncedEvents_def cleanup_pages_once Let_def
             simp del: cleanup_pages.simps split: sum.splits)
  with d delete_all_requests [of env c "filter tagged evs" w1 "()" w2] f r1
  show ?thesis by auto
qed

subsection \<open>What a run creates and deletes\<close>

text \<open>The loop over the events of a source issues one create for each eligible event whose
  key is not in the map built before the loop, and keeps the key of each eligible event.
  The map holds one entry for each key, and the delete loop issues one delete for each
  entry whose key is not kept.\<close>

lemma new_calls_append:
  "only_issues P w w1 \<Longrightarrow> only_issues Q w1 w2 \<Longrightarrow>
   new_calls w w2 = new_calls w w1 @ new_calls w1 w2"
proof -
  assume "only_issues P w w1" and "only_issues Q w1 w2"
  then obtain xs ys where xs: "calls w1 = calls w @ xs" and ys: "calls w2 = calls w1 @ ys"
    by (blast dest: only_issuesD)
  then show ?thesis by (simp add: new_calls_def)
qed

lemma new_calls_same: "calls w' = calls w \<Longrightarrow> new_calls w w' = []"
  by (simp add: new_calls_def)

lemma createBusyEvent_creates:
  assumes "createBusyEvent env c ev w = (Inr created, w')" and "eligible env ev"
  shows "length (filter is_POST (new_calls w w')) = 1"
proof -
  obtain now w0 where nd: "new_Date env w = (now, w0)" by (cases "new_Date env w")
  obtain r1 w1 where rq: "makeAuthenticatedRequest env (POST_event c (busyEvent ev now)) w0 = (r1, w1)"
    by (cases "makeAuthenticatedRequest env (POST_event c (busyEvent ev now)) w0")
  from assms nd rq have "w' = w1"
    by (auto simp: createBusyEvent_def eligible_def split: if_splits sum.splits)
  moreover have "calls w1 = calls w @ [POST_event c (busyEvent ev now)]"
    using request_issues [OF rq] new_Date_calls [OF nd] by simp
  ultimately show ?thesis by (simp add: new_calls_def)
qed

lemma sync_events_creates:
  "sync_events env c m evs keep w = (Inr keep', w') \<Longrightarrow>
   length (filter is_POST (new_calls w w'))
     = length (filter (\<lambda>ev. eligible env ev \<and> \<not> Map_has m (slot_key ev)) evs)
   \<and> set keep' = set keep \<union> slot_key ` {ev \<in> set evs. eligible env ev}"
proof (induction evs arbitrary: keep w)
  case Nil
  then show ?case by (simp add: new_calls_def)
next
  case (Cons ev evs)
  show ?case
  proof (cases "eligible env ev")
    case False
    with Cons.prems have "sync_events env c m evs keep w = (Inr keep', w')"
      by (auto simp: eligible_def split: if_splits)
    from Cons.IH [OF this] False show ?thesis by auto
  next
    case True
    have key: "createEventKey (Some \<lparr>dateTime = Some (the_dateTime (ev_start ev)), timeZone = None\<rparr>)
                 (Some \<lparr>dateTime = Some (the_dateTime (ev_end ev)), timeZone = None\<rparr>)
               = Inr (slot_key ev)"
      by (simp add: createEventKey_def interpolate_def slot_key_def)
    obtain r1 w1 where step: "(if \<not> Map_has m (slot_key ev) then createBusyEvent env c ev w
                               else (Inr None, w)) = (r1, w1)"
      by (cases "if \<not> Map_has m (slot_key ev) then createBusyEvent env c ev w else (Inr None, w)")
    from Cons.prems True key step obtain created where r1: "r1 = Inr created"
      and rest: "sync_events env c m evs (Set_add keep (slot_key ev)) w1 = (Inr keep', w')"
      by (cases r1) (auto simp: eligible_def)
    have first: "only_issues (\<lambda>rq. True) w w1"
      using step by (auto split: if_splits intro: createBusyEvent_issues only_issues_refl)
    have second: "only_issues (\<lambda>rq. True) w1 w'"
      by (rule sync_events_issues [OF _ rest]) simp
    have n1: "length (filter is_POST (new_calls w w1)) = (if Map_has m (slot_key ev) then 0 else 1)"
      using step r1 True by (auto simp: new_calls_def split: if_splits dest: createBusyEvent_creates)
    from Cons.IH [OF rest] new_calls_append [OF first second] n1 True
    show ?thesis by (auto simp: Set_add_def)
  qed
qed

lemma delete_obsolete_requests:
  "delete_obsolete env c m keep w = (Inr u, w') \<Longrightarrow>
   new_calls w w'
     = map (\<lambda>kv. DELETE_event c (event_id (snd kv))) (filter (\<lambda>kv. \<not> Set_has keep (fst kv)) m)"
proof (induction m arbitrary: w)
  case Nil
  then show ?case by (simp add: new_calls_def)
next
  case (Cons kv m)
  obtain k ev where kv: "kv = (k, ev)" by (cases kv)
  show ?case
  proof (cases "Set_has keep k")
    case True
    with Cons.prems kv have "delete_obsolete env c m keep w = (Inr u, w')" by simp
    from Cons.IH [OF this] True kv show ?thesis by simp
  next
    case False
    obtain r1 w1 where d: "deleteEvent env c (event_id ev) w = (r1, w1)"
      by (cases "deleteEvent env c (event_id ev) w")
    then have c1: "calls w1 = calls w @ [DELETE_event c (event_id ev)]"
      by (auto simp: deleteEvent_def makeAuthenticatedRequest_def
               split: prod.splits sum.splits if_splits)
    from Cons.prems kv False d obtain u1 where "r1 = Inr u1"
      and rest: "delete_obsolete env c m keep w1 = (Inr u, w')"
      by (cases r1) auto
    have "only_issues (\<lambda>rq. True) w w1"
      using c1 by (auto intro: only_issuesI)
    moreover have "only_issues (\<lambda>rq. True) w1 w'"
      using rest by (rule delete_obsolete_issues) simp
    ultimately have "new_calls w w' = new_calls w w1 @ new_calls w1 w'"
      by (rule new_calls_append)
    with Cons.IH [OF rest] c1 False kv show ?thesis by (simp add: new_calls_def)
  qed
qed

lemma Map_set_keys:
  "distinct (map fst m) \<Longrightarrow>
   distinct (map fst (Map_set m k v)) \<and> set (map fst (Map_set m k v)) = insert k (set (map fst m))"
  by (induction m k v rule: Map_set.induct) (auto simp: rev_image_eqI)

lemma foldl_Map_set_keys:
  "distinct (map fst m) \<Longrightarrow>
   distinct (map fst (foldl (\<lambda>m (k, v). Map_set m k v) m es))
   \<and> set (map fst (foldl (\<lambda>m (k, v). Map_set m k v) m es)) = set (map fst m) \<union> set (map fst es)"
proof (induction es arbitrary: m)
  case Nil
  then show ?case by simp
next
  case (Cons kv es)
  obtain k v where kv: "kv = (k, v)" by (cases kv)
  from Map_set_keys [OF Cons.prems, of k v]
  have d: "distinct (map fst (Map_set m k v))"
    and s: "set (map fst (Map_set m k v)) = insert k (set (map fst m))"
    by simp_all
  from Cons.IH [OF d] s kv show ?case by auto
qed

lemma new_Map_keys:
  "distinct (map fst (new_Map es)) \<and> set (map fst (new_Map es)) = set (map fst es)"
  using foldl_Map_set_keys [of "[]" es] by (simp add: new_Map_def)

subsection \<open>The delete loop, request by request\<close>

lemma deleteEvent_eq:
  "deleteEvent env c i w =
     (if answer_ok (fst (request env (DELETE_event c i) (provider w))) then Inr ()
      else Inl DeleteFailed,
      w\<lparr>provider := snd (request env (DELETE_event c i) (provider w)),
        calls := calls w @ [DELETE_event c i]\<rparr>)"
  by (simp add: deleteEvent_def makeAuthenticatedRequest_def answer_ok_def
           split: prod.splits sum.splits)

lemma delete_obsolete_eq:
  "delete_obsolete env c m keep w =
     (if list_all answer_ok (replies env (obsolete c m keep) (provider w)) then Inr ()
      else Inl DeleteFailed,
      w\<lparr>provider := served env (sent env (obsolete c m keep) (provider w)) (provider w),
        calls := calls w @ sent env (obsolete c m keep) (provider w)\<rparr>)"
proof (induction m arbitrary: w)
  case Nil
  show ?case by (simp add: obsolete_def sent_def)
next
  case (Cons kv m)
  obtain k ev where kv: "kv = (k, ev)" by (cases kv)
  show ?case
  proof (cases "Set_has keep k")
    case True
    then have "obsolete c (kv # m) keep = obsolete c m keep"
      by (simp add: obsolete_def kv)
    with True kv Cons.IH [of w] show ?thesis by simp
  next
    case False
    let ?D = "DELETE_event c (event_id ev)"
    obtain a p' where rq: "request env ?D (provider w) = (a, p')"
      by (cases "request env ?D (provider w)")
    have ob: "obsolete c (kv # m) keep = ?D # obsolete c m keep"
      using False by (simp add: obsolete_def kv)
    show ?thesis
    proof (cases "answer_ok a")
      case no: False
      then show ?thesis
        using False kv rq ob by (simp add: deleteEvent_eq sent_def)
    next
      case True
      let ?w1 = "w\<lparr>provider := p', calls := calls w @ [?D]\<rparr>"
      have "delete_obsolete env c (kv # m) keep w = delete_obsolete env c m keep ?w1"
        using False kv rq True by (simp add: deleteEvent_eq)
      also have "\<dots> =
        (if list_all answer_ok (replies env (obsolete c m keep) p') then Inr ()
         else Inl DeleteFailed,
         ?w1\<lparr>provider := served env (sent env (obsolete c m keep) p') p',
             calls := calls ?w1 @ sent env (obsolete c m keep) p'\<rparr>)"
        using Cons.IH [of ?w1] by simp
      finally show ?thesis
        using rq True ob by (simp add: sent_def)
    qed
  qed
qed

section \<open>The claims\<close>

subsection \<open>C1: convergence and the same slot in two sources\<close>

text \<open>
  C1 says that after a sync the tagged events of the target are exactly the distinct slots
  of the eligible source events, and that two source calendars holding an eligible event
  with the same start and end leave exactly one synced event in the target. The run
  below starts from an empty target and two sources with one such event each: the key is
  looked up in the map built before the loop, which the loop never extends, so the
  second source creates the slot again and the target ends with two tagged events for
  it, which a further run leaves in place.
\<close>

theorem same_slot_in_two_sources_is_created_twice:
  "fst (performSync (gcal_env [''a'', ''b'']) initial_state same_slot_store) = Inr ()
   \<and> target_events same_slot_store = []
   \<and> map slot (filter tagged (target_events
        (snd (snd (performSync (gcal_env [''a'', ''b'']) initial_state same_slot_store)))))
       = [(''2024-06-17T10:00:00Z'', ''2024-06-17T11:00:00Z''),
          (''2024-06-17T10:00:00Z'', ''2024-06-17T11:00:00Z'')]
   \<and> length (filter is_POST (new_calls same_slot_store
        (snd (snd (performSync (gcal_env [''a'', ''b'']) initial_state same_slot_store))))) = 2
   \<and> length (filter tagged (target_events
        (snd (snd (second_run (gcal_env [''a'', ''b'']) initial_state same_slot_store))))) = 2"
  by code_simp

subsection \<open>C2: events that are not within a single day\<close>

text \<open>
  C2 says that an event whose start and end fall on different calendar days is never
  synced. The check compares \<open>getDate()\<close>, the day of the month, so an event from the
  first of June to the first of July, thirty days long, passes it: the run below creates
  a synced event for it.
\<close>

theorem month_long_event_is_synced:
  "local_date 0 ''2024-06-01T10:00:00Z'' = Some 1
   \<and> local_date 0 ''2024-07-01T11:00:00Z'' = Some 1
   \<and> local_day 0 ''2024-06-01T10:00:00Z'' = Some 19875
   \<and> local_day 0 ''2024-07-01T11:00:00Z'' = Some 19905
   \<and> fst (performSync (gcal_env [''a'']) initial_state month_long_store) = Inr ()
   \<and> map slot (filter tagged (target_events
        (snd (snd (performSync (gcal_env [''a'']) initial_state month_long_store)))))
       = [(''2024-06-01T10:00:00Z'', ''2024-07-01T11:00:00Z'')]"
  by code_simp

subsection \<open>C3: paging of listings\<close>

text \<open>
  C3 says that listing fetches every page when the provider returns a continuation token.
  Against a calendar of two events that the provider lists one to a page, \<open>fetchEvents\<close>
  returns the first event only, although the response carries a token; so do the
  listings that sync and cleanup read.
\<close>

theorem listing_stops_at_first_page_counterexample:
  "fst (fetchEvents (gcal_env [''a'']) ''t'' (noon - 7 * msPerDay) (noon + 7 * msPerDay)
          no_options paged_store) = Inr [busy1]
   \<and> map_sum id nextPageToken
        (fst (gcal_request
                (GET_events ''t'' (query_params (noon - 7 * msPerDay) (noon + 7 * msPerDay) no_options))
                (provider paged_store))) = Inr (Some ''1'')
   \<and> filter (in_window (noon - 7 * msPerDay) (noon + 7 * msPerDay)) (target_events paged_store)
       = [busy1, busy2]
   \<and> sync_listing (gcal_env [''a'']) paged_store = [busy1]
   \<and> cleanup_listing (gcal_env [''a'']) paged_store = [busy1]"
  by code_simp

text \<open>
  C3 as amended: for every calendar and window, \<open>fetchEvents\<close> issues one listing
  request and, when the response is a success, returns the items of that one response,
  in its order (none when the response has no items), whatever continuation token the
  response carries.
\<close>

theorem fetchEvents_returns_one_response:
  assumes "calendarId \<noteq> []"
    and "request env (GET_events calendarId (query_params a b opts)) (provider w) = (Inr resp, p')"
    and "ok resp"
  shows "fetchEvents env calendarId a b opts w =
           (Inr (case items resp of None \<Rightarrow> [] | Some xs \<Rightarrow> xs),
            w\<lparr>provider := p', calls := calls w @ [GET_events calendarId (query_params a b opts)]\<rparr>)"
  using assms by (simp add: fetchEvents_def makeAuthenticatedRequest_def)

theorem fetchEvents_returns_one_response_witness:
  "fetchEvents (gcal_env [''a'']) ''t'' (noon - 7 * msPerDay) (noon + 7 * msPerDay) no_options paged_store =
     (Inr [busy1],
      paged_store\<lparr>provider := provider paged_store,
                  calls := calls paged_store @
                    [GET_events ''t'' (query_params (noon - 7 * msPerDay) (noon + 7 * msPerDay) no_options)]\<rparr>)"
proof -
  have a: "''t'' \<noteq> []" by simp
  have b: "request (gcal_env [''a''])
             (GET_events ''t'' (query_params (noon - 7 * msPerDay) (noon + 7 * msPerDay) no_options))
             (provider paged_store)
           = (Inr \<lparr>status = 200, items = Some [busy1], nextPageToken = Some ''1''\<rparr>, provider paged_store)"
    by code_simp
  have c: "ok \<lparr>status = 200, items = Some [busy1], nextPageToken = Some ''1''\<rparr>"
    by (simp add: ok_def)
  from fetchEvents_returns_one_response [OF a b c] show ?thesis by simp
qed

subsection \<open>C4: deleting an event that is not there\<close>

text \<open>
  C4 says that \<open>deleteEvent\<close> treats a not-found outcome as success and that a sync run
  meeting one in its delete phase does not abort. A delete of an id the calendar does
  not hold fails with \<open>DeleteFailed\<close>, and a run whose delete is answered with 404 ends
  with that error.
\<close>

theorem delete_of_missing_event_fails_counterexample:
  "fst (deleteEvent (gcal_env [''a'']) ''t'' ''zzz'' mixed_store) = Inl DeleteFailed
   \<and> ''zzz'' \<notin> set (map event_id (target_events mixed_store))
   \<and> fst (performSync (scripted_env [''a'']) initial_state gone_script) = Inl DeleteFailed
   \<and> filter is_DELETE (new_calls gone_script
        (snd (snd (performSync (scripted_env [''a'']) initial_state gone_script))))
       = [DELETE_event ''t'' ''s1'']"
  by code_simp

text \<open>
  C4 as amended: \<open>deleteEvent\<close> fails with \<open>DeleteFailed\<close> on every answer that is not a
  success, not-found included. The delete loop sends the deletes that the map and the
  keep set call for, in order, up to and including the first that is not answered with a
  success, and no further; it fails with \<open>DeleteFailed\<close> exactly when there is such a
  delete. A sync run whose delete phase meets one ends with \<open>DeleteFailed\<close> right after
  that delete, its latch released.
\<close>

theorem failed_delete_aborts_the_run:
  "(request env (DELETE_event c i) (provider w) = (a, p') \<and> \<not> answer_ok a \<longrightarrow>
      deleteEvent env c i w
        = (Inl DeleteFailed, w\<lparr>provider := p', calls := calls w @ [DELETE_event c i]\<rparr>))
   \<and> delete_obsolete env c m keep w
       = (if list_all answer_ok (replies env (obsolete c m keep) (provider w)) then Inr ()
          else Inl DeleteFailed,
          w\<lparr>provider := served env (sent env (obsolete c m keep) (provider w)) (provider w),
            calls := calls w @ sent env (obsolete c m keep) (provider w)\<rparr>)
   \<and> (getSettings env = Inr (Some st) \<and> targetCalendar st \<noteq> [] \<and> sourceCalendars st \<noteq> []
        \<and> \<not> syncInProgress s
        \<and> sync_window env st w = ((Some t1, Some t2), w2)
        \<and> fetchEvents env (trim (targetCalendar st)) t1 t2 no_options w2 = (Inr existing, w3)
        \<and> key_entries (filter tagged existing) = Inr entries
        \<and> sync_sources env (trim (targetCalendar st)) (Some t1) (Some t2) (new_Map entries)
              (map trim (sourceCalendars st)) [] w3 = (Inr kept, w4)
        \<and> \<not> list_all answer_ok
              (replies env (obsolete (trim (targetCalendar st)) (new_Map entries) kept) (provider w4))
      \<longrightarrow> performSync env s w
            = (Inl DeleteFailed, s\<lparr>syncInProgress := False\<rparr>,
               w4\<lparr>provider := served env
                    (sent env (obsolete (trim (targetCalendar st)) (new_Map entries) kept) (provider w4))
                    (provider w4),
                  calls := calls w4
                    @ sent env (obsolete (trim (targetCalendar st)) (new_Map entries) kept)
                        (provider w4)\<rparr>))"
proof (intro conjI impI)
  assume "request env (DELETE_event c i) (provider w) = (a, p') \<and> \<not> answer_ok a"
  then show "deleteEvent env c i w
        = (Inl DeleteFailed, w\<lparr>provider := p', calls := calls w @ [DELETE_event c i]\<rparr>)"
    by (simp add: deleteEvent_eq)
next
  show "delete_obsolete env c m keep w
       = (if list_all answer_ok (replies env (obsolete c m keep) (provider w)) then Inr ()
          else Inl DeleteFailed,
          w\<lparr>provider := served env (sent env (obsolete c m keep) (provider w)) (provider w),
            calls := calls w @ sent env (obsolete c m keep) (provider w)\<rparr>)"
    by (rule delete_obsolete_eq)
next
  let ?t = "trim (targetCalendar st)"
  assume h: "getSettings env = Inr (Some st) \<and> targetCalendar st \<noteq> [] \<and> sourceCalendars st \<noteq> []
        \<and> \<not> syncInProgress s
        \<and> sync_window env st w = ((Some t1, Some t2), w2)
        \<and> fetchEvents env ?t t1 t2 no_options w2 = (Inr existing, w3)
        \<and> key_entries (filter tagged existing) = Inr entries
        \<and> sync_sources env ?t (Some t1) (Some t2) (new_Map entries)
              (map trim (sourceCalendars st)) [] w3 = (Inr kept, w4)
        \<and> \<not> list_all answer_ok (replies env (obsolete ?t (new_Map entries) kept) (provider w4))"
  then have "reconcile env st w = delete_obsolete env ?t (new_Map entries) kept w4"
    by (simp add: reconcile_def Let_def fetchEvents_of_Dates_valid)
  with h have "reconcile env st w
      = (Inl DeleteFailed,
         w4\<lparr>provider := served env (sent env (obsolete ?t (new_Map entries) kept) (provider w4))
               (provider w4),
            calls := calls w4 @ sent env (obsolete ?t (new_Map entries) kept) (provider w4)\<rparr>)"
    by (simp add: delete_obsolete_eq)
  with h show "performSync env s w
            = (Inl DeleteFailed, s\<lparr>syncInProgress := False\<rparr>,
               w4\<lparr>provider := served env (sent env (obsolete ?t (new_Map entries) kept) (provider w4))
                    (provider w4),
                  calls := calls w4 @ sent env (obsolete ?t (new_Map entries) kept) (provider w4)\<rparr>)"
    by (simp add: performSync_def performSync_enter_def performSync_resume_def performSync_try_def)
qed

theorem failed_delete_aborts_the_run_witness:
  "deleteEvent (scripted_env [''a'']) ''t'' ''s1'' (start_world [Inr not_found])
     = (Inl DeleteFailed,
        \<lparr>provider = [], calls = [DELETE_event ''t'' ''s1''], ticks = 0\<rparr>)
   \<and> delete_obsolete (scripted_env [''a'']) ''t''
        [(''k1'', busy1), (''k2'', busy2), (''k3'', busy3)] []
        (start_world [Inr deleted, Inr not_found, Inr deleted])
       = (Inl DeleteFailed,
          \<lparr>provider = [Inr deleted],
           calls = [DELETE_event ''t'' ''s1'', DELETE_event ''t'' ''s2''], ticks = 0\<rparr>)
   \<and> performSync (scripted_env [''a'']) initial_state gone_later_script
       = (Inl DeleteFailed, \<lparr>syncInProgress = False, lastSyncTime = None\<rparr>,
          \<lparr>provider = [],
           calls = [GET_events ''t'' (query_params 1717848000000 1719057600000 no_options),
                    GET_events ''a'' (query_params 1717848000000 1719057600000 no_options),
                    DELETE_event ''t'' ''s1'', DELETE_event ''t'' ''s2''],
           ticks = 2\<rparr>)"
proof -
  let ?env = "scripted_env [''a'']"
  let ?st = "\<lparr>targetCalendar = ''t'', sourceCalendars = [''a''], weeksAhead = 1\<rparr>"
  let ?w2 = "snd (sync_window ?env ?st gone_later_script)"
  let ?w3 = "snd (fetchEvents ?env ''t'' 1717848000000 1719057600000 no_options ?w2)"
  let ?m = "[(''2024-06-17T09:00:00Z_2024-06-17T09:30:00Z'', busy1),
             (''2024-06-18T09:00:00Z_2024-06-18T09:30:00Z'', busy2),
             (''2024-06-19T09:00:00Z_2024-06-19T09:30:00Z'', busy3)]"
  let ?w4 = "snd (sync_sources ?env ''t'' (Some 1717848000000) (Some 1719057600000) ?m [''a''] [] ?w3)"
  let ?u = "start_world [Inr not_found] :: (string + response) list world"
  let ?v = "start_world [Inr deleted, Inr not_found, Inr deleted] :: (string + response) list world"
  let ?km = "[(''k1'', busy1), (''k2'', busy2), (''k3'', busy3)]"
  have a: "request ?env (DELETE_event ''t'' ''s1'') (provider ?u) = (Inr not_found, [])
           \<and> \<not> answer_ok (Inr not_found)"
    by code_simp
  have b: "(if list_all answer_ok (replies ?env (obsolete ''t'' ?km []) (provider ?v)) then Inr ()
            else Inl DeleteFailed,
            ?v\<lparr>provider := served ?env (sent ?env (obsolete ''t'' ?km []) (provider ?v)) (provider ?v),
               calls := calls ?v @ sent ?env (obsolete ''t'' ?km []) (provider ?v)\<rparr>)
           = (Inl DeleteFailed,
              \<lparr>provider = [Inr deleted],
               calls = [DELETE_event ''t'' ''s1'', DELETE_event ''t'' ''s2''], ticks = 0\<rparr>)"
    by code_simp
  have c1: "getSettings ?env = Inr (Some ?st) \<and> targetCalendar ?st \<noteq> []
            \<and> sourceCalendars ?st \<noteq> [] \<and> \<not> syncInProgress initial_state"
    by code_simp
  have c2: "sync_window ?env ?st gone_later_script
              = ((Some 1717848000000, Some 1719057600000), ?w2)"
    by code_simp
  have c3: "fetchEvents ?env (trim (targetCalendar ?st)) 1717848000000 1719057600000 no_options ?w2
              = (Inr [busy1, busy2, busy3], ?w3)"
    by code_simp
  have c4: "key_entries (filter tagged [busy1, busy2, busy3]) = Inr ?m"
    by code_simp
  have c5: "sync_sources ?env (trim (targetCalendar ?st)) (Some 1717848000000) (Some 1719057600000)
              (new_Map ?m) (map trim (sourceCalendars ?st)) [] ?w3 = (Inr [], ?w4)"
    by code_simp
  have c6: "\<not> list_all answer_ok
              (replies ?env (obsolete (trim (targetCalendar ?st)) (new_Map ?m) []) (provider ?w4))"
    by code_simp
  have c7: "(Inl DeleteFailed, initial_state\<lparr>syncInProgress := False\<rparr>,
             ?w4\<lparr>provider := served ?env
                    (sent ?env (obsolete (trim (targetCalendar ?st)) (new_Map ?m) []) (provider ?w4))
                    (provider ?w4),
                 calls := calls ?w4
                    @ sent ?env (obsolete (trim (targetCalendar ?st)) (new_Map ?m) []) (provider ?w4)\<rparr>)
            = (Inl DeleteFailed :: error + unit, \<lparr>syncInProgress = False, lastSyncTime = None\<rparr>,
               \<lparr>provider = [],
                calls = [GET_events ''t'' (query_params 1717848000000 1719057600000 no_options),
                         GET_events ''a'' (query_params 1717848000000 1719057600000 no_options),
                         DELETE_event ''t'' ''s1'', DELETE_event ''t'' ''s2''],
                ticks = 2\<rparr>)"
    by code_simp
  note first = failed_delete_aborts_the_run
         [where env = ?env and c = "''t''" and i = "''s1''" and w = ?u
            and a = "Inr not_found" and p' = "[]", THEN conjunct1]
  note second = failed_delete_aborts_the_run
         [where env = ?env and c = "''t''" and w = ?v and keep = "[]" and m = ?km,
            THEN conjunct2, THEN conjunct1]
  note third = failed_delete_aborts_the_run
         [where env = ?env and st = ?st and s = initial_state and w = gone_later_script
            and ?t1.0 = 1717848000000 and ?t2.0 = 1719057600000 and ?w2.0 = ?w2
            and existing = "[busy1, busy2, busy3]" and ?w3.0 = ?w3 and entries = ?m
            and kept = "[]" and ?w4.0 = ?w4, THEN conjunct2, THEN conjunct2]
  have A: "deleteEvent ?env ''t'' ''s1'' ?u
     = (Inl DeleteFailed, ?u\<lparr>provider := [], calls := calls ?u @ [DELETE_event ''t'' ''s1'']\<rparr>)"
    by (rule mp [OF first a])
  have B: "delete_obsolete ?env ''t'' ?km [] ?v
       = (Inl DeleteFailed,
          \<lparr>provider = [Inr deleted],
           calls = [DELETE_event ''t'' ''s1'', DELETE_event ''t'' ''s2''], ticks = 0\<rparr>)"
    using second b by simp
  have "performSync ?env initial_state gone_later_script
          = (Inl DeleteFailed, initial_state\<lparr>syncInProgress := False\<rparr>,
             ?w4\<lparr>provider := served ?env
                    (sent ?env (obsolete (trim (targetCalendar ?st)) (new_Map ?m) []) (provider ?w4))
                    (provider ?w4),
                 calls := calls ?w4
                    @ sent ?env (obsolete (trim (targetCalendar ?st)) (new_Map ?m) []) (provider ?w4)\<rparr>)"
    using c1 c2 c3 c4 c5 c6 by (intro mp [OF third] conjI) simp_all
  then have C: "performSync ?env initial_state gone_later_script
       = (Inl DeleteFailed, \<lparr>syncInProgress = False, lastSyncTime = None\<rparr>,
          \<lparr>provider = [],
           calls = [GET_events ''t'' (query_params 1717848000000 1719057600000 no_options),
                    GET_events ''a'' (query_params 1717848000000 1719057600000 no_options),
                    DELETE_event ''t'' ''s1'', DELETE_event ''t'' ''s2''],
           ticks = 2\<rparr>)"
    using c7 by simp
  from A B C show ?thesis by (simp add: start_world_def)
qed

subsection \<open>C5: a second run does nothing\<close>

text \<open>
  C5 says that a second sync run, with sources and target unchanged in between, issues no
  create and no delete. The target below holds two tagged events for one slot that no
  source occupies: the events that the run in C1 leaves, once the sources have dropped
  the slot. The map keyed by slot keeps one event for the slot, so the first run deletes
  one of the two and the second run deletes the other.
\<close>

theorem second_run_deletes_the_other_duplicate:
  "map event_id (target_events stale_pair_store)
     = map event_id (target_events
         (snd (snd (performSync (gcal_env [''a'', ''b'']) initial_state same_slot_store))))
   \<and> map slot (target_events stale_pair_store)
       = map slot (target_events
           (snd (snd (performSync (gcal_env [''a'', ''b'']) initial_state same_slot_store))))
   \<and> fst (performSync (gcal_env [''a'']) initial_state stale_pair_store) = Inr ()
   \<and> filter is_DELETE (new_calls stale_pair_store
        (snd (snd (performSync (gcal_env [''a'']) initial_state stale_pair_store))))
       = [DELETE_event ''t'' ''evt1'']
   \<and> fst (second_run (gcal_env [''a'']) initial_state stale_pair_store) = Inr ()
   \<and> filter is_DELETE (new_calls
        (snd (snd (performSync (gcal_env [''a'']) initial_state stale_pair_store)))
        (snd (snd (second_run (gcal_env [''a'']) initial_state stale_pair_store))))
       = [DELETE_event ''t'' ''evt0'']"
  by code_simp

subsection \<open>C6: cleanup\<close>

text \<open>
  C6 says that cleanup deletes every tagged event in its window and returns the count to
  its caller. The loop over the pages reads the continuation token from the array that
  \<open>fetchEvents\<close> returned, so it ends after the first page: with two tagged events listed
  one to a page, one is deleted, the count is 1, the other event stays, and
  \<open>cleanupAll\<close> itself resolves to \<open>undefined\<close>.
\<close>

theorem cleanup_leaves_the_second_page:
  "map event_id (filter tagged (target_events paged_store)) = [''s1'', ''s2'']
   \<and> fst (cleanupAll (gcal_env [''a'']) paged_store) = Inr Undefined
   \<and> map event_id (filter tagged (target_events (snd (cleanupAll (gcal_env [''a'']) paged_store))))
       = [''s2'']
   \<and> fst (cleanupSyncedEvents (gcal_env [''a'']) ''t'' 1717804800000 1719100799999 paged_store)
       = Inr 1"
  by code_simp

subsection \<open>C7: the latch\<close>

text \<open>
  C7: a sync invoked while a sync is in progress returns at once, without error and
  without any request to the provider; and after any run, successful or failed, the
  latch is released. A run whose call finds the latch free takes it before its first
  \<open>await\<close>, and the rest of the run, which is where other calls can come in, takes place
  in that state. A call made in that state, by whatever caller and in whatever world
  the run has reached, returns success with the state and the world unchanged; so two
  calls that overlap give the outcome of the first alone and success for the second.
  A call that finds the latch held returns in the same way, and a run that took the
  latch has released it when it ends, whatever its outcome.
\<close>

theorem latch_drops_a_concurrent_sync_and_is_released:
  "(\<not> syncInProgress s \<longrightarrow>
      performSync_enter s = Some (s\<lparr>syncInProgress := True\<rparr>)
      \<and> performSync env s w = performSync_resume env (s\<lparr>syncInProgress := True\<rparr>) w)
   \<and> (performSync_enter s = Some s1 \<longrightarrow>
        isSyncing s1 \<and> performSync env' s1 w' = (Inr (), s1, w'))
   \<and> (\<not> syncInProgress s \<longrightarrow>
        performSync_overlapped env env' s w
          = (fst (performSync env s w), Inr (), snd (performSync env s w)))
   \<and> (syncInProgress s \<longrightarrow> performSync env s w = (Inr (), s, w))
   \<and> (\<not> syncInProgress s \<longrightarrow> \<not> isSyncing (fst (snd (performSync env s w))))"
proof (intro conjI impI)
  assume "\<not> syncInProgress s"
  then show "performSync_enter s = Some (s\<lparr>syncInProgress := True\<rparr>)"
    and "performSync env s w = performSync_resume env (s\<lparr>syncInProgress := True\<rparr>) w"
    by (simp_all add: performSync_def performSync_enter_def)
next
  assume h: "performSync_enter s = Some s1"
  then show "isSyncing s1"
    by (auto simp: performSync_enter_def isSyncing_def split: if_splits)
  from h show "performSync env' s1 w' = (Inr (), s1, w')"
    by (auto simp: performSync_def performSync_enter_def split: if_splits)
next
  assume "\<not> syncInProgress s"
  then show "performSync_overlapped env env' s w
          = (fst (performSync env s w), Inr (), snd (performSync env s w))"
    by (simp add: performSync_overlapped_def performSync_def performSync_enter_def
             split: prod.splits)
next
  assume "syncInProgress s"
  then show "performSync env s w = (Inr (), s, w)"
    by (simp add: performSync_def performSync_enter_def)
next
  assume "\<not> syncInProgress s"
  then show "\<not> isSyncing (fst (snd (performSync env s w)))"
    by (simp add: performSync_def performSync_enter_def performSync_resume_def isSyncing_def
             split: prod.splits sum.splits)
qed

theorem latch_drops_a_concurrent_sync_and_is_released_witness:
  "performSync_enter initial_state = Some \<lparr>syncInProgress = True, lastSyncTime = None\<rparr>
   \<and> isSyncing \<lparr>syncInProgress = True, lastSyncTime = None\<rparr>
   \<and> performSync (gcal_env [''a'', ''b'']) \<lparr>syncInProgress = True, lastSyncTime = None\<rparr> mixed_store
       = (Inr (), \<lparr>syncInProgress = True, lastSyncTime = None\<rparr>, mixed_store)
   \<and> performSync_overlapped (gcal_env [''a'']) (gcal_env [''a'', ''b'']) initial_state mixed_store
       = (fst (performSync (gcal_env [''a'']) initial_state mixed_store), Inr (),
          snd (performSync (gcal_env [''a'']) initial_state mixed_store))
   \<and> length (new_calls mixed_store
        (snd (snd (performSync (gcal_env [''a'']) initial_state mixed_store)))) = 4
   \<and> \<not> isSyncing (fst (snd (performSync (gcal_env [''a'']) initial_state mixed_store)))
   \<and> \<not> isSyncing (fst (snd (performSync (scripted_env [''a'']) initial_state gone_script)))"
proof -
  have free: "\<not> syncInProgress initial_state"
    by (simp add: initial_state_def)
  have taken: "initial_state\<lparr>syncInProgress := True\<rparr> = \<lparr>syncInProgress = True, lastSyncTime = None\<rparr>"
    by (simp add: initial_state_def)
  have n: "length (new_calls mixed_store
        (snd (snd (performSync (gcal_env [''a'']) initial_state mixed_store)))) = 4"
    by code_simp
  note gen = latch_drops_a_concurrent_sync_and_is_released
    [where s = initial_state and env = "gcal_env [''a'']" and w = mixed_store
       and env' = "gcal_env [''a'', ''b'']" and w' = mixed_store
       and ?s1.0 = "\<lparr>syncInProgress = True, lastSyncTime = None\<rparr>"]
  note fails = latch_drops_a_concurrent_sync_and_is_released
    [where s = initial_state and env = "scripted_env [''a'']" and w = gone_script]
  have e: "performSync_enter initial_state = Some \<lparr>syncInProgress = True, lastSyncTime = None\<rparr>"
    using mp [OF gen [THEN conjunct1] free] taken by simp
  have d: "isSyncing \<lparr>syncInProgress = True, lastSyncTime = None\<rparr>
           \<and> performSync (gcal_env [''a'', ''b'']) \<lparr>syncInProgress = True, lastSyncTime = None\<rparr> mixed_store
               = (Inr (), \<lparr>syncInProgress = True, lastSyncTime = None\<rparr>, mixed_store)"
    by (rule mp [OF gen [THEN conjunct2, THEN conjunct1] e])
  have o: "performSync_overlapped (gcal_env [''a'']) (gcal_env [''a'', ''b'']) initial_state mixed_store
       = (fst (performSync (gcal_env [''a'']) initial_state mixed_store), Inr (),
          snd (performSync (gcal_env [''a'']) initial_state mixed_store))"
    by (rule mp [OF gen [THEN conjunct2, THEN conjunct2, THEN conjunct1] free])
  have r: "\<not> isSyncing (fst (snd (performSync (gcal_env [''a'']) initial_state mixed_store)))"
    by (rule mp [OF gen [THEN conjunct2, THEN conjunct2, THEN conjunct2, THEN conjunct2] free])
  have r': "\<not> isSyncing (fst (snd (performSync (scripted_env [''a'']) initial_state gone_script)))"
    by (rule mp [OF fails [THEN conjunct2, THEN conjunct2, THEN conjunct2, THEN conjunct2] free])
  from e d o n r r' show ?thesis by simp
qed

subsection \<open>C8: untagged events are never deleted\<close>

text \<open>
  C8: neither sync nor cleanup deletes an event that does not carry the tag. Every delete
  they issue is for the id of a tagged event of the listing they read from the target:
  when \<open>i\<close> is not the id of a tagged event of that listing (as is the case for the
  id of an untagged event, ids being unique in a calendar), no delete of \<open>i\<close> is among
  the requests of the run.
\<close>

theorem untagged_events_are_never_deleted:
  "(i \<notin> set (map event_id (filter tagged (sync_listing env w))) \<longrightarrow>
      only_issues (spares i) w (snd (snd (performSync env s w))))
   \<and> (i \<notin> set (map event_id (filter tagged (cleanup_listing env w))) \<longrightarrow>
      only_issues (spares i) w (snd (cleanupAll env w)))"
proof (intro conjI impI)
  assume h: "i \<notin> set (map event_id (filter tagged (sync_listing env w)))"
  have "only_issues (spares i) w (snd (performSync_try env w))"
    by (rule performSync_try_issues) (use h in auto)
  then show "only_issues (spares i) w (snd (snd (performSync env s w)))"
    by (simp add: performSync_world only_issues_refl)
next
  assume h: "i \<notin> set (map event_id (filter tagged (cleanup_listing env w)))"
  show "only_issues (spares i) w (snd (cleanupAll env w))"
    by (rule cleanupAll_issues) (use h in auto)
qed

theorem untagged_events_are_never_deleted_witness:
  "''u1'' \<in> set (map event_id (sync_listing (gcal_env [''a'']) mixed_store))
   \<and> ''u1'' \<notin> set (map event_id (filter tagged (sync_listing (gcal_env [''a'']) mixed_store)))
   \<and> only_issues (spares ''u1'') mixed_store
       (snd (snd (performSync (gcal_env [''a'']) initial_state mixed_store)))
   \<and> ''u1'' \<notin> set (map event_id (filter tagged (cleanup_listing (gcal_env [''a'']) mixed_store)))
   \<and> only_issues (spares ''u1'') mixed_store (snd (cleanupAll (gcal_env [''a'']) mixed_store))
   \<and> filter is_DELETE (new_calls mixed_store
        (snd (snd (performSync (gcal_env [''a'']) initial_state mixed_store))))
       = [DELETE_event ''t'' ''s1'']
   \<and> filter is_DELETE (new_calls mixed_store (snd (cleanupAll (gcal_env [''a'']) mixed_store)))
       = [DELETE_event ''t'' ''s1'']"
proof -
  have a: "''u1'' \<notin> set (map event_id (filter tagged (sync_listing (gcal_env [''a'']) mixed_store)))"
    by code_simp
  have b: "''u1'' \<notin> set (map event_id (filter tagged (cleanup_listing (gcal_env [''a'']) mixed_store)))"
    by code_simp
  have c: "filter is_DELETE (new_calls mixed_store
        (snd (snd (performSync (gcal_env [''a'']) initial_state mixed_store))))
       = [DELETE_event ''t'' ''s1'']"
    by code_simp
  have d: "filter is_DELETE (new_calls mixed_store (snd (cleanupAll (gcal_env [''a'']) mixed_store)))
       = [DELETE_event ''t'' ''s1'']"
    by code_simp
  have e: "''u1'' \<in> set (map event_id (sync_listing (gcal_env [''a'']) mixed_store))"
    by code_simp
  from a b c d e untagged_events_are_never_deleted
    [of "''u1''" "gcal_env [''a'']" mixed_store initial_state]
  show ?thesis by blast
qed

subsection \<open>C9: the window of a sync run\<close>





subsection \<open>C10: the last sync time\<close>

text \<open>
  C10: a sync run that fails leaves the last sync time as it was, and the last sync time
  changes only when the latch was free and the body of the run completed; it is then the
  time that the body yields.
\<close>

theorem failed_run_leaves_last_sync_time:
  "(fst (performSync env s w) = Inl e \<longrightarrow>
      getLastSyncTime (fst (snd (performSync env s w))) = getLastSyncTime s)
   \<and> (getLastSyncTime (fst (snd (performSync env s w))) \<noteq> getLastSyncTime s \<longrightarrow>
        \<not> syncInProgress s \<and> fst (performSync env s w) = Inr ()
        \<and> map_sum id Some (fst (performSync_try env w))
            = Inr (getLastSyncTime (fst (snd (performSync env s w)))))"
  by (auto simp: performSync_def performSync_enter_def performSync_resume_def
                 getLastSyncTime_def split: if_splits prod.splits sum.splits)

theorem failed_run_leaves_last_sync_time_witness:
  "fst (performSync (scripted_env [''a'']) (initial_state\<lparr>lastSyncTime := Some 5\<rparr>) gone_script)
     = Inl DeleteFailed
   \<and> getLastSyncTime (fst (snd (performSync (scripted_env [''a''])
        (initial_state\<lparr>lastSyncTime := Some 5\<rparr>) gone_script))) = Some 5
   \<and> getLastSyncTime (fst (snd (performSync (gcal_env [''a''])
        (initial_state\<lparr>lastSyncTime := Some 5\<rparr>) mixed_store))) = Some noon
   \<and> fst (performSync (gcal_env [''a'']) (initial_state\<lparr>lastSyncTime := Some 5\<rparr>) mixed_store)
       = Inr ()"
proof -
  have a: "fst (performSync (scripted_env [''a'']) (initial_state\<lparr>lastSyncTime := Some 5\<rparr>) gone_script)
     = Inl DeleteFailed"
    by code_simp
  have b: "getLastSyncTime (fst (snd (performSync (gcal_env [''a''])
        (initial_state\<lparr>lastSyncTime := Some 5\<rparr>) mixed_store))) = Some noon"
    by code_simp
  have c: "getLastSyncTime (initial_state\<lparr>lastSyncTime := Some 5\<rparr>) = Some 5"
    by (simp add: getLastSyncTime_def initial_state_def)
  have d: "Some noon \<noteq> Some (5::int)"
    by (simp add: noon_def)
  from failed_run_leaves_last_sync_time
         [of "scripted_env [''a'']" "initial_state\<lparr>lastSyncTime := Some 5\<rparr>" gone_script DeleteFailed]
       failed_run_leaves_last_sync_time
         [of "gcal_env [''a'']" "initial_state\<lparr>lastSyncTime := Some 5\<rparr>" mixed_store DeleteFailed]
       a b c d
  show ?thesis by simp
qed

end
